theory Spec2Isabelle
  imports Complex_Main "HOL-Library.Multiset"
begin

section \<open>Shared JavaScript notions\<close>

text \<open>
  JavaScript strings are modelled as HOL strings, one \<^typ>\<open>char\<close> per code unit, so the
  model covers the code units below 256. A string is falsy exactly when it is empty;
  \<open>null\<close> and \<open>undefined\<close> are \<^const>\<open>None\<close>.
\<close>

definition truthy :: "string option \<Rightarrow> bool" where
  "truthy v = (case v of None \<Rightarrow> False | Some s \<Rightarrow> s \<noteq> [])"

text \<open>\<open>a || b\<close> on nullable strings: the left operand when it is truthy, else the right.\<close>

definition js_or :: "string option \<Rightarrow> string option \<Rightarrow> string option" where
  "js_or a b = (if truthy a then a else b)"

section \<open>JavaScript numbers\<close>

text \<open>
  A JavaScript number is an IEEE 754 double. The model represents a finite double by the
  rational it denotes, and every arithmetic result of the program is the exact result
  rounded by \<open>double\<close>: to the nearest double, a tie going to the even significand, with
  gradual underflow below \<open>2^-1022\<close>. \<open>Infinity\<close> (results beyond the largest finite
  double) and \<open>NaN\<close> are outside the model.
\<close>

text \<open>The number of binary digits of a positive integer.\<close>

function bitlen :: "int \<Rightarrow> nat" where
  "bitlen k = (if k \<le> 0 then 0 else Suc (bitlen (k div 2)))"
  by pat_completeness auto
termination
  by (relation "measure nat") auto

declare bitlen.simps [simp del]

definition two_pow :: "int \<Rightarrow> rat" where
  "two_pow e = (if 0 \<le> e then 2 ^ nat e else 1 / 2 ^ nat (- e))"

text \<open>The binary exponent of a positive rational \<open>a\<close>: the \<open>e\<close> with \<open>2^e \<le> a < 2^(e+1)\<close>.\<close>

definition ilog2 :: "rat \<Rightarrow> int" where
  "ilog2 a =
     (case quotient_of a of
        (p, q) \<Rightarrow>
          (let d = int (bitlen p) - int (bitlen q)
           in if two_pow d \<le> a then d else d - 1))"

definition round_half_even :: "rat \<Rightarrow> int" where
  "round_half_even m =
     (let f = \<lfloor>m\<rfloor>; r = m - of_int f
      in if r < 1 / 2 then f else if 1 / 2 < r then f + 1 else if even f then f else f + 1)"

text \<open>Rounding to a double: 53 significant bits, exponents from \<open>-1022\<close>.\<close>

definition double :: "rat \<Rightarrow> rat" where
  "double x =
     (if x = 0 then 0
      else (let a = \<bar>x\<bar>; e = max (ilog2 a) (- 1022); u = two_pow (e - 52)
            in sgn x * of_int (round_half_even (a / u)) * u))"

text \<open>The operators \<open>+\<close> and \<open>*\<close> on numbers.\<close>

definition js_add :: "rat \<Rightarrow> rat \<Rightarrow> rat" where
  "js_add a b = double (a + b)"

definition js_mul :: "rat \<Rightarrow> rat \<Rightarrow> rat" where
  "js_mul a b = double (a * b)"

section \<open>Status filter preference (RestaurantOwnerDashboard, lines 589-613)\<close>

definition STATUS_FILTER_KEY :: string where
  "STATUS_FILTER_KEY = ''restaurantOwnerStatusFilter''"

type_synonym localStorage = "string \<rightharpoonup> string"

text \<open>
  The lazy initialiser of \<open>useState\<close>: with a \<open>window\<close>, the stored value or
  \<open>'all'\<close> when \<open>getItem\<close> gives \<open>null\<close> or the empty string; without one, \<open>'all'\<close>.
\<close>

definition initStatusFilter :: "bool \<Rightarrow> localStorage \<Rightarrow> string" where
  "initStatusFilter hasWindow ls =
     (if hasWindow
      then (case js_or (ls STATUS_FILTER_KEY) (Some ''all'') of Some v \<Rightarrow> v | None \<Rightarrow> ''all'')
      else ''all'')"

text \<open>The effect on \<open>[statusFilter]\<close>: it runs after mount and after every change.\<close>

definition saveStatusFilter :: "bool \<Rightarrow> string \<Rightarrow> localStorage \<Rightarrow> localStorage" where
  "saveStatusFilter hasWindow statusFilter ls =
     (if hasWindow then ls(STATUS_FILTER_KEY \<mapsto> statusFilter) else ls)"

record filter_view =
  statusFilter :: string
  storage :: localStorage

text \<open>Mounting the view: initialise the state, then run the saving effect once.\<close>

definition mountView :: "bool \<Rightarrow> localStorage \<Rightarrow> filter_view" where
  "mountView hasWindow ls =
     (let f = initStatusFilter hasWindow ls
      in \<lparr>statusFilter = f, storage = saveStatusFilter hasWindow f ls\<rparr>)"

text \<open>
  \<open>setStatusFilter v\<close> from the select's \<open>onChange\<close>: a value equal to the current one
  causes no render and no effect; a new one is stored in the state and the effect writes it.
\<close>

definition setStatusFilter :: "bool \<Rightarrow> string \<Rightarrow> filter_view \<Rightarrow> filter_view" where
  "setStatusFilter hasWindow v w =
     (if v = statusFilter w then w
      else \<lparr>statusFilter = v, storage = saveStatusFilter hasWindow v (storage w)\<rparr>)"

text \<open>Reloading the view keeps the persisted storage and mounts again.\<close>

definition reloadView :: "bool \<Rightarrow> filter_view \<Rightarrow> filter_view" where
  "reloadView hasWindow w = mountView hasWindow (storage w)"

section \<open>Store answers\<close>

text \<open>
  A store call answers with a pair \<open>{ data, error }\<close>. The store's not-found signal of a
  single-row lookup is the error code \<open>PGRST116\<close>.
\<close>

record pg_error =
  code :: string
  message :: string

record 'a response =
  data :: "'a option"
  error :: "pg_error option"

definition PGRST116 :: string where
  "PGRST116 = ''PGRST116''"

definition is_not_found :: "pg_error option \<Rightarrow> bool" where
  "is_not_found e = (case e of None \<Rightarrow> False | Some x \<Rightarrow> code x = PGRST116)"

section \<open>Rows, events and state of the owner dashboard (RestaurantOwnerDashboard, lines 560-571)\<close>

text \<open>
  Prices are JavaScript numbers, held as the rationals they denote. A row of the
  line-item fetch carries the selected columns; \<open>food_item_id\<close> is read by the program
  although the query does not select it.
\<close>

record line_item =
  order_id :: string
  name :: string
  price :: rat
  quantity :: int
  food_item_id :: "string option"
  food_items_restaurant_id :: string

record order_header =
  oid :: string
  status :: string
  created_at :: int
  user_id :: string

record relevant_item =
  ri_food_item_id :: "string option"
  ri_name :: string
  ri_price :: rat
  ri_quantity :: int

text \<open>\<open>{ ...order, order_items, restaurant_subtotal }\<close>: the header, extended.\<close>

record full_order = order_header +
  order_items :: "relevant_item list"
  restaurant_subtotal :: rat

record owner_row =
  owner_id :: string
  contact_name :: string

record restaurant_row =
  restaurant_id :: string
  restaurant_name :: string
  restaurant_owner :: string

text \<open>What the effect does to the outside: store lookups, console output and the timer.\<close>

datatype js_exn = StoreError pg_error | TypeError

datatype event =
    SelectOwner string
  | SelectRestaurant string
  | SelectOrderItems string
  | SelectOrders "string list"
  | UpdateOrder string string
  | ConsoleLogRetry nat
  | ConsoleError js_exn
  | ConsoleLog string
  | SetTimeout nat
  | ClearTimeout

record dashboard =
  user :: "string option"
  owner :: "owner_row option"
  myRestaurant :: "restaurant_row option"
  restaurantLoaded :: bool
  restaurantCheckAttempts :: nat
  loading :: bool
  orders :: "full_order list"

section \<open>Restaurant visibility check (RestaurantOwnerDashboard, lines 793-841)\<close>

text \<open>\<open>console.error\<close> of a store error, when there is one.\<close>

definition thrown :: "pg_error option \<Rightarrow> event list" where
  "thrown e = (case e of None \<Rightarrow> [] | Some x \<Rightarrow> [ConsoleError (StoreError x)])"

text \<open>
  One run of the effect, after its guard: \<open>loadMyData\<close>. \<open>uid\<close> is \<open>user.id\<close>;
  \<open>m1\<close> and \<open>m2\<close> are the value of \<open>mounted\<close> when the owner lookup and the restaurant
  lookup return. The result is the new component state, the armed \<open>retryTimeout\<close> (its
  delay in milliseconds) and the events in order.
\<close>

definition loadMyData ::
  "string \<Rightarrow> bool \<Rightarrow> bool \<Rightarrow> owner_row response \<Rightarrow> restaurant_row response \<Rightarrow> dashboard
     \<Rightarrow> dashboard \<times> nat option \<times> event list" where
  "loadMyData uid m1 m2 ownerResp restaurantResp st0 =
     (let st = st0\<lparr>loading := True\<rparr> in
      if error ownerResp \<noteq> None \<and> \<not> is_not_found (error ownerResp) then
        \<comment> \<open>\<open>throw ownerError\<close>, caught below\<close>
        (if m1
         then (st\<lparr>myRestaurant := None, restaurantLoaded := True, loading := False\<rparr>, None,
               [SelectOwner uid] @ thrown (error ownerResp))
         else (st, None, [SelectOwner uid]))
      else
        (let st1 = (if m1 then st\<lparr>owner := data ownerResp\<rparr> else st) in
         if m2 then
           (if is_not_found (error restaurantResp) \<and> restaurantCheckAttempts st1 < 3 then
              (st1\<lparr>restaurantCheckAttempts := restaurantCheckAttempts st1 + 1, loading := False\<rparr>,
               Some 2000,
               [SelectOwner uid, SelectRestaurant uid,
                ConsoleLogRetry (restaurantCheckAttempts st1 + 1), SetTimeout 2000])
            else
              (st1\<lparr>myRestaurant := data restaurantResp, restaurantLoaded := True, loading := False\<rparr>,
               None,
               [SelectOwner uid, SelectRestaurant uid] @
               (if is_not_found (error restaurantResp) then [] else thrown (error restaurantResp))))
         else (st1, None, [SelectOwner uid, SelectRestaurant uid])))"

text \<open>The cleanup function of the effect: it clears the timer when one is armed.\<close>

definition cleanup :: "nat option \<Rightarrow> event list" where
  "cleanup retryTimeout = (case retryTimeout of None \<Rightarrow> [] | Some _ \<Rightarrow> [ClearTimeout])"

text \<open>The callback of the retry timer: \<open>setRestaurantLoaded(false)\<close>.\<close>

definition retryCallback :: "dashboard \<Rightarrow> dashboard" where
  "retryCallback st = st\<lparr>restaurantLoaded := False\<rparr>"

text \<open>
  The effect depends on \<open>[user, restaurantLoaded, restaurantCheckAttempts]\<close>: it runs
  again when one of them has changed, after the cleanup of the previous run. Its guard
  returns at once when there is no user or the restaurant is loaded. \<open>checkRestaurant\<close>
  runs the effect against the scripted answers of the store, one pair per run, while the
  view stays mounted, until the guard stops it, the dependencies stay as they are or the
  script ends.
\<close>

fun checkRestaurant ::
  "(owner_row response \<times> restaurant_row response) list \<Rightarrow> dashboard \<Rightarrow> dashboard \<times> event list" where
  "checkRestaurant [] st = (st, [])"
| "checkRestaurant (r # rs) st =
     (case user st of
        None \<Rightarrow> (st, [])
      | Some uid \<Rightarrow>
          if restaurantLoaded st then (st, [])
          else
            (case loadMyData uid True True (fst r) (snd r) st of
               (st', retryTimeout, evs) \<Rightarrow>
                 if restaurantLoaded st' = restaurantLoaded st
                    \<and> restaurantCheckAttempts st' = restaurantCheckAttempts st
                 then (st', evs)
                 else (case checkRestaurant rs st' of
                         (st'', evs') \<Rightarrow> (st'', evs @ cleanup retryTimeout @ evs'))))"

text \<open>Sign-in: \<open>onAuthStateChange\<close> sets the user and resets the check.\<close>

definition onAuthStateChange :: "string option \<Rightarrow> dashboard \<Rightarrow> dashboard" where
  "onAuthStateChange u st = st\<lparr>user := u, restaurantLoaded := False, restaurantCheckAttempts := 0\<rparr>"

definition initialDashboard :: dashboard where
  "initialDashboard = \<lparr>user = None, owner = None, myRestaurant = None, restaurantLoaded = False,
     restaurantCheckAttempts = 0, loading = True, orders = []\<rparr>"

text \<open>The screen that is rendered once the user is known (lines 941-957).\<close>

datatype screen = AuthPage | LoadingScreen | NoRestaurantLinked | Dashboard

definition render :: "dashboard \<Rightarrow> screen" where
  "render st =
     (if user st = None then AuthPage
      else if \<not> restaurantLoaded st \<or> (loading st \<and> (myRestaurant st = None \<or> owner st = None))
      then LoadingScreen
      else if myRestaurant st = None \<and> restaurantLoaded st then NoRestaurantLinked
      else Dashboard)"

definition count_retries :: "event list \<Rightarrow> nat" where
  "count_retries evs = length (filter (\<lambda>e. case e of SetTimeout _ \<Rightarrow> True | _ \<Rightarrow> False) evs)"

definition count_lookups :: "event list \<Rightarrow> nat" where
  "count_lookups evs = length (filter (\<lambda>e. case e of SelectRestaurant _ \<Rightarrow> True | _ \<Rightarrow> False) evs)"

section \<open>Order queue assembly (RestaurantOwnerDashboard, lines 658-717)\<close>

text \<open>\<open>[...new Set(xs)]\<close>: the distinct elements, in order of first occurrence.\<close>

definition new_Set :: "'a list \<Rightarrow> 'a list" where
  "new_Set xs = foldl (\<lambda>acc x. if x \<in> set acc then acc else acc @ [x]) [] xs"

text \<open>
  \<open>Number.prototype.toFixed(2)\<close>, read as the number its decimal string denotes: the
  multiple of \<open>1/100\<close> nearest to the exact value of the double, the larger magnitude on
  a tie, with the sign put back.
\<close>

definition toFixed2 :: "rat \<Rightarrow> rat" where
  "toFixed2 x =
     (if x < 0 then - (of_int \<lfloor>(- x) * 100 + 1 / 2\<rfloor> / 100)
      else of_int \<lfloor>x * 100 + 1 / 2\<rfloor> / 100)"

definition relevantItems :: "line_item list \<Rightarrow> string \<Rightarrow> relevant_item list" where
  "relevantItems items i =
     map (\<lambda>l. \<lparr>ri_food_item_id = food_item_id l, ri_name = name l,
                ri_price = price l, ri_quantity = quantity l\<rparr>)
         (filter (\<lambda>l. order_id l = i) items)"

definition restaurantSubtotal :: "relevant_item list \<Rightarrow> rat" where
  "restaurantSubtotal ris =
     foldl (\<lambda>sum item. js_add sum (js_mul (ri_price item) (of_int (ri_quantity item)))) 0 ris"

definition fullOrder :: "line_item list \<Rightarrow> order_header \<Rightarrow> full_order" where
  "fullOrder items ord =
     (let ris = relevantItems items (oid ord)
      in order_header.extend ord
           (full_order.fields ris (toFixed2 (restaurantSubtotal ris))))"

text \<open>
  \<open>loadOrders\<close>. \<open>itemsResp\<close> is the store's answer to the line-item query and
  \<open>ordersFetch ids\<close> its answer to the header query for the identifiers \<open>ids\<close>. A
  \<open>null\<close> \<open>data\<close> without an error makes \<open>.map\<close> throw a \<open>TypeError\<close>, which the
  \<open>catch\<close> logs like a store error.
\<close>

definition loadOrders ::
  "line_item list response \<Rightarrow> (string list \<Rightarrow> order_header list response) \<Rightarrow> dashboard
     \<Rightarrow> dashboard \<times> event list" where
  "loadOrders itemsResp ordersFetch st0 =
     (case myRestaurant st0 of
        None \<Rightarrow> (st0, [])
      | Some r \<Rightarrow>
          (let st = st0\<lparr>loading := True\<rparr>; q1 = [SelectOrderItems (restaurant_id r)] in
           case error itemsResp of
             Some e \<Rightarrow> (st\<lparr>loading := False\<rparr>, q1 @ [ConsoleError (StoreError e)])
           | None \<Rightarrow>
               (case data itemsResp of
                  None \<Rightarrow> (st\<lparr>loading := False\<rparr>, q1 @ [ConsoleError TypeError])
                | Some items \<Rightarrow>
                    (let uniqueOrderIds = new_Set (map order_id items) in
                     if length uniqueOrderIds = 0
                     then (st\<lparr>orders := [], loading := False\<rparr>, q1)
                     else
                       (let ordersResp = ordersFetch uniqueOrderIds;
                            q2 = q1 @ [SelectOrders uniqueOrderIds] in
                        case error ordersResp of
                          Some e \<Rightarrow> (st\<lparr>loading := False\<rparr>, q2 @ [ConsoleError (StoreError e)])
                        | None \<Rightarrow>
                            (case data ordersResp of
                               None \<Rightarrow> (st\<lparr>loading := False\<rparr>, q2 @ [ConsoleError TypeError])
                             | Some ordersData \<Rightarrow>
                                 (st\<lparr>orders := map (fullOrder items) ordersData, loading := False\<rparr>,
                                  q2)))))))"

text \<open>
  The store's side of the two queries, as the program asks for them: the lines whose food
  item belongs to the restaurant (the inner join with the \<open>eq\<close> filter), and the headers
  whose \<open>id\<close> is \<open>in\<close> the list, ordered by \<open>created_at\<close> descending.
\<close>

definition ok :: "'a \<Rightarrow> 'a response" where
  "ok x = \<lparr>data = Some x, error = None\<rparr>"

definition failed :: "pg_error \<Rightarrow> 'a response" where
  "failed e = \<lparr>data = None, error = Some e\<rparr>"

definition select_order_items :: "line_item list \<Rightarrow> string \<Rightarrow> line_item list" where
  "select_order_items tbl rid = filter (\<lambda>l. food_items_restaurant_id l = rid) tbl"

definition select_orders_in :: "order_header list \<Rightarrow> string list \<Rightarrow> order_header list" where
  "select_orders_in tbl ids = sort_key (\<lambda>h. - created_at h) (filter (\<lambda>h. oid h \<in> set ids) tbl)"

section \<open>Status update (RestaurantOwnerDashboard, lines 639-656)\<close>

text \<open>
  \<open>updateOrderStatus\<close>. The callback closes over the \<open>orders\<close> of the render that
  created it (\<open>captured\<close>); \<open>resp\<close> is the store's answer to the update.
\<close>

definition updateOrderStatus ::
  "full_order list \<Rightarrow> string \<Rightarrow> string \<Rightarrow> unit response \<Rightarrow> dashboard \<Rightarrow> dashboard \<times> event list" where
  "updateOrderStatus captured orderId newStatus resp st =
     (case error resp of
        Some e \<Rightarrow>
          (st, [UpdateOrder orderId newStatus, ConsoleError (StoreError e),
                ConsoleLog (''Failed to update status. Error: '' @ message e @
                  ''. Please check RLS policies on '' @ [CHR 0x22] @ ''orders'' @ [CHR 0x22] @ ''.'')])
      | None \<Rightarrow>
          (st\<lparr>orders := map (\<lambda>ord. if oid ord = orderId then ord\<lparr>status := newStatus\<rparr> else ord) captured\<rparr>,
           [UpdateOrder orderId newStatus]))"

section \<open>Owner registration (RestaurantOwnerDashboard, lines 101-201)\<close>

datatype success_message = NoMessage | Registered string | CheckEmail

record auth_page =
  email :: string
  password :: string
  ownerName :: string
  phoneNumber :: string
  restaurantName :: string
  addressStreet :: string
  addressBarangay :: string
  restaurantCategoryId :: string
  restaurantImageUrl :: string
  isLogin :: bool
  error_text :: string
  page_loading :: bool
  successMessage :: success_message

text \<open>\<open>authResult\<close>: \<open>data.user\<close> (its id), \<open>data.session\<close> and \<open>error\<close>.\<close>

record auth_result =
  result_user :: "string option"
  result_session :: "string option"
  result_error :: "pg_error option"

record owner_insert =
  ins_id :: string
  ins_contact_name :: string
  ins_phone_number :: "string option"

record restaurant_insert =
  ins_name :: string
  ins_address_street :: string
  ins_address_barangay :: string
  ins_category_id :: string
  ins_image_url :: "string option"
  ins_owner_id :: string
  ins_is_open :: bool

text \<open>
  The answers of the external service, scripted: \<open>insertRestaurant k\<close> is the error of
  the \<open>k\<close>-th restaurant insert (from 0), \<open>None\<close> when it succeeds.
\<close>

record auth_env =
  signIn :: auth_result
  signUp :: auth_result
  insertOwner :: "pg_error option"
  insertRestaurant :: "nat \<Rightarrow> pg_error option"
  verifyRestaurant :: "restaurant_row response"

datatype auth_event =
    SignIn string
  | SignUp string
  | InsertOwner owner_insert
  | InsertRestaurant restaurant_insert
  | Wait nat
  | SelectRestaurantByOwner string
  | OnSuccess "string option"
  | SetTimeoutSetIsLogin nat
  | ConsoleErrorMessage string

text \<open>\<open>x || null\<close> on a form field.\<close>

definition or_null :: "string \<Rightarrow> string option" where
  "or_null x = (if x = [] then None else Some x)"

text \<open>
  The \<open>while (retries > 0 && !restaurantCreated)\<close> loop; \<open>k\<close> counts the inserts issued
  so far. \<open>Inl\<close> is the message of the thrown \<open>Error\<close>.
\<close>

function insertLoop ::
  "(nat \<Rightarrow> pg_error option) \<Rightarrow> restaurant_insert \<Rightarrow> nat \<Rightarrow> bool \<Rightarrow> nat
     \<Rightarrow> (string + unit) \<times> auth_event list" where
  "insertLoop ins row retries restaurantCreated k =
     (if retries > 0 \<and> \<not> restaurantCreated then
        (case ins k of
           None \<Rightarrow>
             (let (r, evs) = insertLoop ins row retries True (k + 1)
              in (r, InsertRestaurant row # evs))
         | Some dbError \<Rightarrow>
             if retries > 1 then
               (let (r, evs) = insertLoop ins row (retries - 1) False (k + 1)
                in (r, InsertRestaurant row # Wait 1000 # evs))
             else (Inl (''Failed to register restaurant: '' @ message dbError),
                   [InsertRestaurant row]))
      else (Inr (), []))"
  by pat_completeness auto
termination
  by (relation "measure (\<lambda>(ins, row, retries, restaurantCreated, k).
        2 * retries + (if restaurantCreated then 0 else 1))") auto

declare insertLoop.simps [simp del]

text \<open>The body of the \<open>try\<close>: the thrown message, or the success message that was set.\<close>

definition tryAuth :: "auth_env \<Rightarrow> auth_page \<Rightarrow> (string + success_message) \<times> auth_event list" where
  "tryAuth env p =
     (if isLogin p then
        (case result_error (signIn env) of
           Some e \<Rightarrow> (Inl (message e), [SignIn (email p)])
         | None \<Rightarrow> (Inr NoMessage, [SignIn (email p), Wait 500, OnSuccess (result_user (signIn env))]))
      else
        (case result_error (signUp env) of
           Some e \<Rightarrow> (Inl (message e), [SignUp (email p)])
         | None \<Rightarrow>
            (case (result_user (signUp env), result_session (signUp env)) of
               (Some newUser, Some session) \<Rightarrow>
                 (let ownerRow = \<lparr>ins_id = newUser, ins_contact_name = ownerName p,
                                   ins_phone_number = or_null (phoneNumber p)\<rparr>;
                      evs1 = [SignUp (email p), InsertOwner ownerRow] in
                  case insertOwner env of
                    Some ownerError \<Rightarrow>
                      (Inl (''Failed to create owner profile: '' @ message ownerError), evs1)
                  | None \<Rightarrow>
                      (let row = \<lparr>ins_name = restaurantName p,
                                    ins_address_street = addressStreet p,
                                    ins_address_barangay = addressBarangay p,
                                    ins_category_id = restaurantCategoryId p,
                                    ins_image_url = or_null (restaurantImageUrl p),
                                    ins_owner_id = newUser, ins_is_open = True\<rparr> in
                       case insertLoop (insertRestaurant env) row 3 False 0 of
                         (Inl m, evs2) \<Rightarrow> (Inl m, evs1 @ evs2)
                       | (Inr _, evs2) \<Rightarrow>
                           (let evs3 = evs1 @ evs2 @ [Wait 1500, SelectRestaurantByOwner newUser] in
                            case (error (verifyRestaurant env), data (verifyRestaurant env)) of
                              (None, Some v) \<Rightarrow>
                                (Inr (Registered (restaurant_name v)),
                                 evs3 @ [Wait 1500, OnSuccess (Some newUser)])
                            | _ \<Rightarrow>
                                (Inl ''Restaurant was created but could not be verified. Please try logging in again.'',
                                 evs3))))
             | (_, None) \<Rightarrow> (Inr CheckEmail, [SignUp (email p), SetTimeoutSetIsLogin 3000])
             | _ \<Rightarrow> (Inr NoMessage, [SignUp (email p)]))))"

text \<open>\<open>handleAuth\<close>: validation, the \<open>try\<close>, its \<open>catch\<close> and its \<open>finally\<close>.\<close>

definition handleAuth :: "auth_env \<Rightarrow> auth_page \<Rightarrow> auth_page \<times> auth_event list" where
  "handleAuth env p0 =
     (let p = p0\<lparr>error_text := [], successMessage := NoMessage, page_loading := True\<rparr> in
      if email p = [] \<or> password p = [] then
        (p\<lparr>error_text := ''Please fill in both email and password.'', page_loading := False\<rparr>, [])
      else if \<not> isLogin p \<and> (ownerName p = [] \<or> restaurantName p = [] \<or> addressBarangay p = []
                             \<or> restaurantCategoryId p = []) then
        (p\<lparr>error_text := ''Your Name, Restaurant Name, Barangay, and Category are required for registration.'',
           page_loading := False\<rparr>, [])
      else
        (case tryAuth env p of
           (Inl m, evs) \<Rightarrow>
             (p\<lparr>error_text := (if m = [] then ''Authentication failed. Please try again.'' else m),
                page_loading := False\<rparr>,
              evs @ [ConsoleErrorMessage m])
         | (Inr msg, evs) \<Rightarrow> (p\<lparr>successMessage := msg, page_loading := False\<rparr>, evs)))"

text \<open>The callback of the 3-second timer: \<open>setIsLogin(true)\<close>.\<close>

definition setIsLoginTimer :: "auth_page \<Rightarrow> auth_page" where
  "setIsLoginTimer p = p\<lparr>isLogin := True\<rparr>"

text \<open>The events that write to or read from the database tables.\<close>

fun is_store_access :: "auth_event \<Rightarrow> bool" where
  "is_store_access (InsertOwner _) = True"
| "is_store_access (InsertRestaurant _) = True"
| "is_store_access (SelectRestaurantByOwner _) = True"
| "is_store_access _ = False"

fun is_restaurant_insert :: "auth_event \<Rightarrow> bool" where
  "is_restaurant_insert (InsertRestaurant _) = True"
| "is_restaurant_insert _ = False"

section \<open>Order history: image resolution (lines 1240-1263)\<close>

text \<open>
  A raw image reference is \<open>null\<close>, a string or an object with address fields. The storage
  client is a parameter: \<open>getPublicUrl bucket key\<close> throws or returns \<open>{ data }\<close>.
\<close>

record ref_obj =
  url :: "string option"
  path :: "string option"
  publicUrl :: "string option"
  public_url :: "string option"
  publicURL :: "string option"

datatype js_image = ImgNull | ImgStr string | ImgObj ref_obj

datatype probe = ProbeThrows | ProbeData "ref_obj option"

type_synonym storage = "string \<Rightarrow> string \<Rightarrow> probe"

definition bucketsToTry :: "string list" where
  "bucketsToTry = [''food-images'', ''restaurant-images'']"

definition truthy_image :: "js_image \<Rightarrow> bool" where
  "truthy_image v = (case v of ImgNull \<Rightarrow> False | ImgStr s \<Rightarrow> s \<noteq> [] | ImgObj _ \<Rightarrow> True)"

text \<open>White space of \<open>String.prototype.trim\<close>, among the code units below 256.\<close>

definition is_white_space :: "char \<Rightarrow> bool" where
  "is_white_space c = ((of_char c :: nat) \<in> {9, 10, 11, 12, 13, 32, 160})"

definition trim :: "string \<Rightarrow> string" where
  "trim s = rev (dropWhile is_white_space (rev (dropWhile is_white_space s)))"

text \<open>The case folding of the \<open>i\<close> flag on these code units: the ASCII letters.\<close>

definition lower :: "char \<Rightarrow> char" where
  "lower c =
     (case map_of (zip ''ABCDEFGHIJKLMNOPQRSTUVWXYZ'' ''abcdefghijklmnopqrstuvwxyz'') c of
        Some l \<Rightarrow> l
      | None \<Rightarrow> c)"

text \<open>\<open>/^https?:\/\//i.test(value)\<close>\<close>

definition is_http :: "string \<Rightarrow> bool" where
  "is_http v = (map lower (take 7 v) = ''http://'' \<or> map lower (take 8 v) = ''https://'')"

text \<open>\<open>value.startsWith('data:')\<close>\<close>

definition is_data :: "string \<Rightarrow> bool" where
  "is_data v = (take 5 v = ''data:'')"

text \<open>\<open>value.replace(/^\/+/, '')\<close>\<close>

definition strip_slashes :: "string \<Rightarrow> string" where
  "strip_slashes v = dropWhile (\<lambda>c. c = CHR ''/'') v"

text \<open>
  \<open>data?.publicUrl || data?.publicURL || data?.public_url || data?.url\<close> of one probe;
  a probe that throws has no value.
\<close>

definition probe_publicUrl :: "probe \<Rightarrow> string option" where
  "probe_publicUrl r =
     (case r of
        ProbeThrows \<Rightarrow> None
      | ProbeData None \<Rightarrow> None
      | ProbeData (Some x) \<Rightarrow> js_or (publicUrl x) (js_or (publicURL x) (js_or (public_url x) (url x))))"

text \<open>The \<open>for\<close> loop over the buckets; a probe that throws is skipped.\<close>

fun probeBuckets :: "storage \<Rightarrow> string \<Rightarrow> string list \<Rightarrow> string option" where
  "probeBuckets getPublicUrl key [] = None"
| "probeBuckets getPublicUrl key (bucket # rest) =
     (let pu = probe_publicUrl (getPublicUrl bucket key)
      in if truthy pu then pu else probeBuckets getPublicUrl key rest)"

definition resolveImage :: "storage \<Rightarrow> js_image \<Rightarrow> string option" where
  "resolveImage getPublicUrl raw =
     (if \<not> truthy_image raw then None
      else
        (let value = (case raw of
                        ImgObj x \<Rightarrow> js_or (url x) (js_or (path x) (js_or (publicUrl x)
                                      (js_or (public_url x) (js_or (publicURL x) None))))
                      | ImgStr s \<Rightarrow> Some s
                      | ImgNull \<Rightarrow> None) in
         case value of
           None \<Rightarrow> None
         | Some v0 \<Rightarrow>
             if v0 = [] then None
             else
               (let v = trim v0 in
                if is_http v \<or> is_data v then Some v
                else probeBuckets getPublicUrl (strip_slashes v) bucketsToTry)))"

text \<open>A resolved image, stored back into an item: \<open>null\<close> or the address.\<close>

definition image_of :: "string option \<Rightarrow> js_image" where
  "image_of r = (case r of None \<Rightarrow> ImgNull | Some u \<Rightarrow> ImgStr u)"

section \<open>Order history: segmentation (lines 1265-1303)\<close>

record restaurant_join =
  r_name :: "string option"
  r_image_url :: js_image

record food_item_join =
  fi_restaurant_id :: "string option"
  fi_food_item_id :: "string option"
  fi_image_url :: js_image
  restaurants :: "restaurant_join option"

record history_item =
  h_food_item_id :: "string option"
  h_name :: string
  h_price :: rat
  h_quantity :: int
  food_items :: "food_item_join option"
  image_url :: js_image

record history_order =
  h_id :: string
  h_status :: string
  h_created_at :: int
  h_order_items :: "history_item list option"

record restaurant_group =
  restaurantName :: string
  restaurantId :: "string option"
  items :: "history_item list"
  subtotal :: rat

record segment =
  seg_order :: history_order
  displayId :: string
  seg_restaurantName :: string
  seg_order_items :: "history_item list"
  total :: rat
  createdAt :: string
  isSegment :: bool

text \<open>\<open>item.food_items?.image_url || item.image_url || null\<close>, resolved and stored.\<close>

definition enrich :: "storage \<Rightarrow> history_item \<Rightarrow> history_item" where
  "enrich getPublicUrl item =
     (let a = (case food_items item of None \<Rightarrow> ImgNull | Some f \<Rightarrow> fi_image_url f);
          raw = (if truthy_image a then a
                 else if truthy_image (image_url item) then image_url item else ImgNull)
      in item\<lparr>image_url := image_of (resolveImage getPublicUrl raw)\<rparr>)"

text \<open>\<open>item.food_items?.restaurants?.name\<close>\<close>

definition restaurant_name_of :: "history_item \<Rightarrow> string option" where
  "restaurant_name_of item =
     (case food_items item of
        None \<Rightarrow> None
      | Some f \<Rightarrow> (case restaurants f of None \<Rightarrow> None | Some r \<Rightarrow> r_name r))"

text \<open>\<open>item.food_items?.restaurant_id\<close>\<close>

definition restaurant_id_of :: "history_item \<Rightarrow> string option" where
  "restaurant_id_of item = (case food_items item of None \<Rightarrow> None | Some f \<Rightarrow> fi_restaurant_id f)"

text \<open>
  The accumulator \<open>acc\<close> of the \<open>reduce\<close> is a plain object \<open>{}\<close>: its own properties
  are kept in insertion order, and a read \<open>acc[k]\<close> of a key it does not own falls back
  to \<open>Object.prototype\<close>, whose properties are all truthy and have no \<open>items\<close>.
\<close>

definition Object_prototype_keys :: "string list" where
  "Object_prototype_keys =
     [''constructor'', ''hasOwnProperty'', ''isPrototypeOf'', ''propertyIsEnumerable'',
      ''toLocaleString'', ''toString'', ''valueOf'', ''__defineGetter__'', ''__defineSetter__'',
      ''__lookupGetter__'', ''__lookupSetter__'', ''__proto__'']"

type_synonym groups = "(string \<times> restaurant_group) list"

definition update_group :: "string \<Rightarrow> (restaurant_group \<Rightarrow> restaurant_group) \<Rightarrow> groups \<Rightarrow> groups" where
  "update_group k f acc = map (\<lambda>(k', g). if k' = k then (k', f g) else (k', g)) acc"

text \<open>
  One call of the reducer; \<open>nm\<close> is the source's local \<open>restaurantId\<close>, which holds
  the restaurant's name. \<open>Inl TypeError\<close> is the throw of \<open>undefined.push\<close>.
\<close>

definition group_step :: "groups \<Rightarrow> history_item \<Rightarrow> js_exn + groups" where
  "group_step acc item =
     (case restaurant_name_of item of
        None \<Rightarrow> Inr acc
      | Some nm \<Rightarrow>
          if nm = [] then Inr acc
          else if map_of acc nm = None \<and> nm \<in> set Object_prototype_keys
          then Inl TypeError
          else
            (let acc1 = (if map_of acc nm = None
                         then acc @ [(nm,
                                \<lparr>restaurantName = nm, restaurantId = restaurant_id_of item,
                                 items = [], subtotal = 0\<rparr>)]
                         else acc);
                 itemTotal = js_mul (h_price item) (of_int (h_quantity item))
             in Inr (update_group nm
                       (\<lambda>g. g\<lparr>items := items g @ [item],
                               subtotal := js_add (subtotal g) itemTotal\<rparr>) acc1)))"

fun group_items :: "groups \<Rightarrow> history_item list \<Rightarrow> js_exn + groups" where
  "group_items acc [] = Inr acc"
| "group_items acc (item # rest) =
     (case group_step acc item of Inl e \<Rightarrow> Inl e | Inr acc' \<Rightarrow> group_items acc' rest)"

text \<open>
  \<open>Object.values\<close> lists the own properties whose key is an array index (a canonical
  decimal numeral below \<open>2^32 - 1\<close>) first, in ascending numeric order, then the other
  keys in insertion order.
\<close>

definition is_digit :: "char \<Rightarrow> bool" where
  "is_digit c = (48 \<le> (of_char c :: nat) \<and> (of_char c :: nat) \<le> 57)"

definition numeral_value :: "string \<Rightarrow> nat" where
  "numeral_value s = foldl (\<lambda>n c. 10 * n + ((of_char c :: nat) - 48)) 0 s"

definition is_array_index :: "string \<Rightarrow> bool" where
  "is_array_index s =
     (s \<noteq> [] \<and> list_all is_digit s \<and> (length s = 1 \<or> hd s \<noteq> CHR ''0'')
      \<and> numeral_value s < 2 ^ 32 - 1)"

definition Object_values :: "groups \<Rightarrow> restaurant_group list" where
  "Object_values acc =
     map snd (sort_key (\<lambda>(k, g). numeral_value k) (filter (\<lambda>(k, g). is_array_index k) acc)
              @ filter (\<lambda>(k, g). \<not> is_array_index k) acc)"

text \<open>\<open>`${order.id}-${group.restaurantId}`\<close>; a \<open>null\<close> id prints as \<open>null\<close>.\<close>

definition display_id :: "string \<Rightarrow> string option \<Rightarrow> string" where
  "display_id i rid = i @ ''-'' @ (case rid of None \<Rightarrow> ''null'' | Some r \<Rightarrow> r)"

text \<open>\<open>order.order_items || []\<close>\<close>

definition order_items_of :: "history_order \<Rightarrow> history_item list" where
  "order_items_of ord = (case h_order_items ord of None \<Rightarrow> [] | Some xs \<Rightarrow> xs)"

text \<open>
  The segments of one order. \<open>toLocaleDateString\<close> formats the creation time and is a
  parameter of the model.
\<close>

definition segments_of ::
  "(int \<Rightarrow> string) \<Rightarrow> storage \<Rightarrow> history_order \<Rightarrow> js_exn + segment list" where
  "segments_of toLocaleDateString getPublicUrl ord =
     (let enrichedItems = map (enrich getPublicUrl) (order_items_of ord)
      in case group_items [] enrichedItems of
           Inl e \<Rightarrow> Inl e
         | Inr restaurantGroups \<Rightarrow>
             Inr (map (\<lambda>g. \<lparr>seg_order = ord,
                             displayId = display_id (h_id ord) (restaurantId g),
                             seg_restaurantName = restaurantName g,
                             seg_order_items = items g,
                             total = subtotal g,
                             createdAt = toLocaleDateString (h_created_at ord),
                             isSegment = True\<rparr>)
                      (Object_values restaurantGroups)))"

text \<open>\<open>Promise.all\<close> over the orders, then \<open>flat()\<close>: one rejection rejects the whole.\<close>

fun groupedDisplayOrders ::
  "(int \<Rightarrow> string) \<Rightarrow> storage \<Rightarrow> history_order list \<Rightarrow> js_exn + segment list" where
  "groupedDisplayOrders fmt getPublicUrl [] = Inr []"
| "groupedDisplayOrders fmt getPublicUrl (ord # rest) =
     (case segments_of fmt getPublicUrl ord of
        Inl e \<Rightarrow> Inl e
      | Inr segs \<Rightarrow>
          (case groupedDisplayOrders fmt getPublicUrl rest of
             Inl e \<Rightarrow> Inl e
           | Inr others \<Rightarrow> Inr (segs @ others)))"

text \<open>Notions used to state the properties of the segmentation.\<close>

definition resolvable :: "history_item \<Rightarrow> bool" where
  "resolvable item = truthy (restaurant_name_of item)"

text \<open>The exact product of price and quantity, of a history item and of a fetched line.\<close>

definition item_total :: "history_item \<Rightarrow> rat" where
  "item_total item = h_price item * of_int (h_quantity item)"

definition line_total :: "line_item \<Rightarrow> rat" where
  "line_total l = price l * of_int (quantity l)"

text \<open>
  The running total that the program keeps over the exact products \<open>ts\<close>: each product
  is rounded and each addition is rounded, from left to right, starting at 0.
\<close>

definition js_sum :: "rat list \<Rightarrow> rat" where
  "js_sum ts = foldl (\<lambda>s t. js_add s (double t)) 0 ts"

text \<open>
  From the running total \<open>s\<close>, no product of \<open>ts\<close> and no addition is changed by
  rounding.
\<close>

fun exact_run :: "rat \<Rightarrow> rat list \<Rightarrow> bool" where
  "exact_run s [] = True"
| "exact_run s (t # ts) = (double t = t \<and> double (s + t) = s + t \<and> exact_run (s + t) ts)"

section \<open>Notions and sample data used in the statements\<close>

text \<open>An owner lookup that does not throw: no error, or the not-found signal.\<close>

definition owner_ok :: "owner_row response \<Rightarrow> bool" where
  "owner_ok r = (error r = None \<or> is_not_found (error r))"

text \<open>The state right after sign-in.\<close>

definition signed_in :: "string \<Rightarrow> dashboard" where
  "signed_in uid = onAuthStateChange (Some uid) initialDashboard"

definition ex_not_found :: "restaurant_row response" where
  "ex_not_found = failed \<lparr>code = ''PGRST116'', message = ''no rows''\<rparr>"

definition ex_restaurant :: restaurant_row where
  "ex_restaurant = \<lparr>restaurant_id = ''r1'', restaurant_name = ''A'', restaurant_owner = ''u1''\<rparr>"

definition ex_owner :: owner_row where
  "ex_owner = \<lparr>owner_id = ''u1'', contact_name = ''Juan''\<rparr>"

text \<open>A projected line agrees with a fetched line on every field it keeps.\<close>

definition matches :: "relevant_item \<Rightarrow> line_item \<Rightarrow> bool" where
  "matches ri l = (ri_food_item_id ri = food_item_id l \<and> ri_name ri = name l \<and>
                   ri_price ri = price l \<and> ri_quantity ri = quantity l)"

text \<open>Headers in descending order of creation time.\<close>

definition desc_by_created_at :: "'a order_header_scheme list \<Rightarrow> bool" where
  "desc_by_created_at hs = sorted_wrt (\<lambda>a b. created_at a \<ge> created_at b) hs"

text \<open>Sample rows of the order queue.\<close>

definition ex_lines :: "line_item list" where
  "ex_lines =
     [\<lparr>order_id = ''o1'', name = ''Burger'', price = 100, quantity = 1, food_item_id = None,
       food_items_restaurant_id = ''r1''\<rparr>,
      \<lparr>order_id = ''o2'', name = ''Cola'', price = 75, quantity = 1, food_item_id = None,
       food_items_restaurant_id = ''r1''\<rparr>,
      \<lparr>order_id = ''o1'', name = ''Fries'', price = 50, quantity = 2, food_item_id = None,
       food_items_restaurant_id = ''r1''\<rparr>]"

definition ex_headers :: "order_header list" where
  "ex_headers =
     [\<lparr>oid = ''o1'', status = ''Pending'', created_at = 10, user_id = ''c1''\<rparr>,
      \<lparr>oid = ''o2'', status = ''Pending'', created_at = 20, user_id = ''c2''\<rparr>,
      \<lparr>oid = ''o3'', status = ''Pending'', created_at = 30, user_id = ''c3''\<rparr>]"

definition ex_dashboard :: dashboard where
  "ex_dashboard =
     \<lparr>user = Some ''u1'', owner = Some ex_owner, myRestaurant = Some ex_restaurant,
      restaurantLoaded = True, restaurantCheckAttempts = 0, loading = False,
      orders = map (fullOrder ex_lines) ex_headers\<rparr>"

definition ex_error :: pg_error where
  "ex_error = \<lparr>code = ''500'', message = ''network''\<rparr>"

text \<open>A registration form that passes the client-side validation.\<close>

definition valid_registration :: "auth_page \<Rightarrow> bool" where
  "valid_registration p =
     (email p \<noteq> [] \<and> password p \<noteq> [] \<and> \<not> isLogin p \<and> ownerName p \<noteq> [] \<and>
      auth_page.restaurantName p \<noteq> [] \<and> addressBarangay p \<noteq> [] \<and> restaurantCategoryId p \<noteq> [])"

text \<open>The rows that the registration of \<open>p\<close> inserts for the user \<open>uid\<close>.\<close>

definition owner_row_of :: "auth_page \<Rightarrow> string \<Rightarrow> owner_insert" where
  "owner_row_of p uid =
     \<lparr>ins_id = uid, ins_contact_name = ownerName p, ins_phone_number = or_null (phoneNumber p)\<rparr>"

definition restaurant_row_of :: "auth_page \<Rightarrow> string \<Rightarrow> restaurant_insert" where
  "restaurant_row_of p uid =
     \<lparr>ins_name = auth_page.restaurantName p, ins_address_street = addressStreet p,
      ins_address_barangay = addressBarangay p, ins_category_id = restaurantCategoryId p,
      ins_image_url = or_null (restaurantImageUrl p), ins_owner_id = uid, ins_is_open = True\<rparr>"

text \<open>Sample registration: barangay Tibanga, category 7.\<close>

definition ex_page :: auth_page where
  "ex_page =
     \<lparr>email = ''juan@example.com'', password = ''secret'', ownerName = ''Juan'',
      phoneNumber = [], restaurantName = ''A'', addressStreet = ''Quezon Ave'',
      addressBarangay = ''Tibanga'', restaurantCategoryId = ''7'', restaurantImageUrl = [],
      isLogin = False, error_text = [], page_loading = False, successMessage = NoMessage\<rparr>"

definition ex_transient :: pg_error where
  "ex_transient = \<lparr>code = ''503'', message = ''transient''\<rparr>"

definition ex_env :: "(nat \<Rightarrow> pg_error option) \<Rightarrow> string option \<Rightarrow> auth_env" where
  "ex_env ins session =
     \<lparr>signIn = \<lparr>result_user = None, result_session = None, result_error = None\<rparr>,
      signUp = \<lparr>result_user = Some ''u1'', result_session = session, result_error = None\<rparr>,
      insertOwner = None,
      insertRestaurant = ins,
      verifyRestaurant = ok ex_restaurant\<rparr>"

text \<open>Inserts that fail twice and then succeed, and inserts that always fail.\<close>

definition fail_twice :: "nat \<Rightarrow> pg_error option" where
  "fail_twice k = (if k < 2 then Some ex_transient else None)"

definition fail_always :: "nat \<Rightarrow> pg_error option" where
  "fail_always k = Some ex_transient"

text \<open>What a storage location yields for a key: a truthy public address, or nothing.\<close>

definition yields :: "storage \<Rightarrow> string \<Rightarrow> string \<Rightarrow> string option" where
  "yields getPublicUrl bucket key =
     (if truthy (probe_publicUrl (getPublicUrl bucket key))
      then probe_publicUrl (getPublicUrl bucket key) else None)"

text \<open>A fully-qualified address as the program recognises it, and one without white space around it.\<close>

definition is_address :: "string \<Rightarrow> bool" where
  "is_address v = (is_http v \<or> is_data v)"

definition trimmed :: "string \<Rightarrow> bool" where
  "trimmed v = (trim v = v)"

text \<open>The string of a raw reference: the string itself, or the first truthy field of an object.\<close>

definition ref_value :: "js_image \<Rightarrow> string option" where
  "ref_value raw =
     (case raw of
        ImgNull \<Rightarrow> None
      | ImgStr s \<Rightarrow> (if s = [] then None else Some s)
      | ImgObj x \<Rightarrow> js_or (url x) (js_or (path x) (js_or (publicUrl x)
                      (js_or (public_url x) (js_or (publicURL x) None)))))"

text \<open>Sample storages: one where every probe throws, one that serves the food bucket.\<close>

definition ex_no_storage :: storage where
  "ex_no_storage bucket key = ProbeThrows"

definition ex_storage :: storage where
  "ex_storage bucket key =
     (if bucket = ''restaurant-images'' then
        ProbeData (Some \<lparr>url = None, path = None,
          publicUrl = Some (''https://cdn.example.com/restaurant-images/'' @ key),
          public_url = None, publicURL = None\<rparr>)
      else ProbeThrows)"

text \<open>A storage whose food bucket yields one fixed address for every key.\<close>

definition ex_fixed_storage :: storage where
  "ex_fixed_storage bucket key =
     (if bucket = ''food-images'' then
        ProbeData (Some \<lparr>url = None, path = None,
          publicUrl = Some ''https://cdn.example.com/food-images/placeholder.png'',
          public_url = None, publicURL = None\<rparr>)
      else ProbeData None)"

text \<open>
  Notions for the segmentation. An item has the name \<open>n\<close> when its restaurant's name is
  \<open>n\<close>; its resolved name is that name when it is truthy. \<open>names_of\<close> lists the
  resolved names of the items in order, with repetitions.
\<close>

definition has_name :: "string \<Rightarrow> history_item \<Rightarrow> bool" where
  "has_name n item = (restaurant_name_of item = Some n)"

definition resolved_name :: "history_item \<Rightarrow> string option" where
  "resolved_name item =
     (if truthy (restaurant_name_of item) then restaurant_name_of item else None)"

definition names_of :: "history_item list \<Rightarrow> string list" where
  "names_of xs = List.map_filter resolved_name xs"

text \<open>No resolved name is a property that a plain object inherits.\<close>

definition plain_names :: "history_item list \<Rightarrow> bool" where
  "plain_names xs = (set (names_of xs) \<inter> set Object_prototype_keys = {})"

text \<open>The group that the items \<open>xs\<close> give the name \<open>n\<close>.\<close>

definition group_of :: "history_item list \<Rightarrow> string \<Rightarrow> restaurant_group" where
  "group_of xs n =
     \<lparr>restaurantName = n,
      restaurantId = (case List.find (has_name n) xs of None \<Rightarrow> None | Some i \<Rightarrow> restaurant_id_of i),
      items = filter (has_name n) xs,
      subtotal = js_sum (map item_total (filter (has_name n) xs))\<rparr>"

definition expected_groups :: "history_item list \<Rightarrow> groups" where
  "expected_groups xs = map (\<lambda>n. (n, group_of xs n)) (new_Set (names_of xs))"

text \<open>Every group of the items is summed without rounding.\<close>

definition exact_order :: "history_item list \<Rightarrow> bool" where
  "exact_order xs =
     list_all (\<lambda>n. exact_run 0 (map item_total (filter (has_name n) xs))) (names_of xs)"

text \<open>A restaurant as an item refers to it: its identifier and its name.\<close>

definition restaurant_of :: "history_item \<Rightarrow> string option \<times> string option" where
  "restaurant_of item = (restaurant_id_of item, restaurant_name_of item)"

text \<open>Sample history rows: an item of a restaurant, and an item without food item.\<close>

definition ex_item :: "string \<Rightarrow> rat \<Rightarrow> int \<Rightarrow> string \<Rightarrow> string \<Rightarrow> history_item" where
  "ex_item nm p q rid rname =
     \<lparr>h_food_item_id = None, h_name = nm, h_price = p, h_quantity = q,
      food_items = Some \<lparr>fi_restaurant_id = Some rid, fi_food_item_id = None,
                         fi_image_url = ImgNull,
                         restaurants = Some \<lparr>r_name = Some rname, r_image_url = ImgNull\<rparr>\<rparr>,
      image_url = ImgNull\<rparr>"

definition ex_orphan :: history_item where
  "ex_orphan =
     \<lparr>h_food_item_id = None, h_name = ''Gone'', h_price = 10, h_quantity = 1,
      food_items = None, image_url = ImgNull\<rparr>"

definition ex_date :: "int \<Rightarrow> string" where
  "ex_date t = ''Nov 2, 2026''"

text \<open>One order with two items of restaurant A, one of restaurant B and an orphan.\<close>

definition ex_history_order :: history_order where
  "ex_history_order =
     \<lparr>h_id = ''o1'', h_status = ''Delivered'', h_created_at = 0,
      h_order_items = Some [ex_item ''Burger'' 100 1 ''ra'' ''A'', ex_orphan,
                            ex_item ''Cola'' 75 1 ''rb'' ''B'', ex_item ''Fries'' 50 2 ''ra'' ''A'']\<rparr>"

text \<open>One order with items of two restaurants that share a name.\<close>

definition ex_same_name_order :: history_order where
  "ex_same_name_order =
     \<lparr>h_id = ''o2'', h_status = ''Delivered'', h_created_at = 0,
      h_order_items = Some [ex_item ''Chicken'' 100 1 ''r1'' ''Jollibee'',
                            ex_item ''Spaghetti'' 75 1 ''r2'' ''Jollibee'']\<rparr>"

text \<open>What a segmentation shows: per segment its display id, name, item names and total.\<close>

definition segment_summaries ::
  "js_exn + segment list \<Rightarrow> (string \<times> string \<times> string list \<times> rat) list option" where
  "segment_summaries r =
     (case r of
        Inl e \<Rightarrow> None
      | Inr segs \<Rightarrow>
          Some (map (\<lambda>s. (displayId s, seg_restaurantName s, map h_name (seg_order_items s), total s))
                    segs))"

text \<open>A line with the price 0.165 as the program holds it, and the store that has its order.\<close>

definition ex_float_line :: line_item where
  "ex_float_line =
     \<lparr>order_id = ''o1'', name = ''Siomai'', price = double (165 / 1000), quantity = 3,
      food_item_id = None, food_items_restaurant_id = ''r1''\<rparr>"

definition ex_fetch :: "string list \<Rightarrow> order_header list response" where
  "ex_fetch ids = ok (select_orders_in ex_headers ids)"

text \<open>The identifier and status of each displayed order, in order.\<close>

definition order_statuses :: "dashboard \<Rightarrow> (string \<times> string) list" where
  "order_statuses st = map (\<lambda>fo. (oid fo, status fo)) (orders st)"

text \<open>The totals of a segmentation, in order; none when it throws.\<close>

definition segment_totals :: "js_exn + segment list \<Rightarrow> rat list" where
  "segment_totals r = (case r of Inl e \<Rightarrow> [] | Inr segs \<Rightarrow> map total segs)"

text \<open>
  One order with items at 0.1 and 1.1 of two restaurants that share a name, and an item
  at 0.1 of a third restaurant.
\<close>

definition ex_float_order :: history_order where
  "ex_float_order =
     \<lparr>h_id = ''o4'', h_status = ''Delivered'', h_created_at = 0,
      h_order_items = Some [ex_item ''Sundae'' (double (1 / 10)) 1 ''r1'' ''Jollibee'',
                            ex_item ''Cola'' (double (1 / 10)) 1 ''rb'' ''B'',
                            ex_item ''Fries'' (double (11 / 10)) 1 ''r2'' ''Jollibee'']\<rparr>"

text \<open>One order with items of two restaurants that are both named \<open>toString\<close>.\<close>

definition ex_inherited_order :: history_order where
  "ex_inherited_order =
     \<lparr>h_id = ''o3'', h_status = ''Delivered'', h_created_at = 0,
      h_order_items = Some [ex_item ''Halo-halo'' 60 1 ''r7'' ''toString'',
                            ex_item ''Turon'' 20 2 ''r8'' ''toString'']\<rparr>"

section \<open>Properties\<close>

subsection \<open>Status filter\<close>

text \<open>
  C9. In a browser, a change of the filter to a non-empty value is written under the
  fixed key, a reload restores it as the active filter, and with nothing stored the
  filter is \<open>all\<close>.
\<close>

theorem status_filter_round_trip:
  assumes "v \<noteq> []"
  shows "storage (setStatusFilter True v (mountView True ls)) STATUS_FILTER_KEY = Some v
       \<and> statusFilter (reloadView True (setStatusFilter True v (mountView True ls))) = v
       \<and> statusFilter (mountView True (ls(STATUS_FILTER_KEY := None))) = ''all''"
  using assms
  by (auto simp: setStatusFilter_def mountView_def reloadView_def initStatusFilter_def
       saveStatusFilter_def js_or_def truthy_def Let_def split: option.splits)

theorem status_filter_round_trip_witness:
  "''Preparing'' \<noteq> []
   \<and> storage (setStatusFilter True ''Preparing'' (mountView True Map.empty)) STATUS_FILTER_KEY
       = Some ''Preparing''
   \<and> statusFilter (reloadView True (setStatusFilter True ''Preparing'' (mountView True Map.empty)))
       = ''Preparing''
   \<and> statusFilter (mountView True Map.empty) = ''all''"
  using status_filter_round_trip [of "''Preparing''" Map.empty] by simp

subsection \<open>Restaurant visibility check\<close>

lemma loadMyData_retry:
  assumes "owner_ok ownerResp" "is_not_found (error r)" "restaurantCheckAttempts st < 3"
  shows "loadMyData uid True True ownerResp r st =
           (st\<lparr>owner := data ownerResp, restaurantCheckAttempts := restaurantCheckAttempts st + 1,
               loading := False\<rparr>,
            Some 2000,
            [SelectOwner uid, SelectRestaurant uid,
             ConsoleLogRetry (restaurantCheckAttempts st + 1), SetTimeout 2000])"
  using assms by (auto simp: loadMyData_def owner_ok_def Let_def)

lemma loadMyData_settled:
  assumes "owner_ok ownerResp" "\<not> (is_not_found (error r) \<and> restaurantCheckAttempts st < 3)"
  shows "loadMyData uid True True ownerResp r st =
           (st\<lparr>owner := data ownerResp, myRestaurant := data r, restaurantLoaded := True,
               loading := False\<rparr>,
            None,
            [SelectOwner uid, SelectRestaurant uid] @
            (if is_not_found (error r) then [] else thrown (error r)))"
  using assms by (auto simp: loadMyData_def owner_ok_def Let_def)

lemma count_simps:
  "count_retries [] = 0" "count_lookups [] = 0"
  "count_retries (e # es) = (case e of SetTimeout _ \<Rightarrow> 1 | _ \<Rightarrow> 0) + count_retries es"
  "count_lookups (e # es) = (case e of SelectRestaurant _ \<Rightarrow> 1 | _ \<Rightarrow> 0) + count_lookups es"
  by (auto simp: count_retries_def count_lookups_def split: event.splits)


lemma count_retries_thrown: "count_retries (xs @ thrown e) = count_retries xs"
  by (auto simp: count_retries_def thrown_def split: option.splits)

lemma loadMyData_step:
  assumes own: "owner_ok ownerResp"
      and h: "loadMyData uid True True ownerResp r st = (st', timer, evs)"
  shows "((timer \<noteq> None) = (is_not_found (error r) \<and> restaurantCheckAttempts st < 3)) \<and>
         (timer \<noteq> None \<longrightarrow>
            timer = Some 2000 \<and> count_retries evs = 1 \<and> restaurantLoaded st' = restaurantLoaded st \<and>
            restaurantCheckAttempts st' = restaurantCheckAttempts st + 1) \<and>
         (timer = None \<longrightarrow>
            count_retries evs = 0 \<and> restaurantLoaded st' \<and> myRestaurant st' = data r \<and>
            restaurantCheckAttempts st' = restaurantCheckAttempts st)"
proof (cases "is_not_found (error r) \<and> restaurantCheckAttempts st < 3")
  case True
  with loadMyData_retry[OF own, of r st uid] h show ?thesis
    by (auto simp: count_simps)
next
  case False
  with loadMyData_settled[OF own False, of uid] h show ?thesis
    by (auto simp: count_simps count_retries_thrown simp del: append.simps)
qed

lemma three_not_found_then_row:
  assumes own: "owner_ok o1" "owner_ok o2" "owner_ok o3" "owner_ok o4"
      and nf: "is_not_found (error n1)" "is_not_found (error n2)" "is_not_found (error n3)"
  shows "checkRestaurant ((o1, n1) # (o2, n2) # (o3, n3) # (o4, ok row) # rest) (signed_in uid) =
           (\<lparr>user = Some uid, owner = data o4, myRestaurant = Some row, restaurantLoaded = True,
             restaurantCheckAttempts = 3, loading = False, orders = []\<rparr>,
            [SelectOwner uid, SelectRestaurant uid, ConsoleLogRetry 1, SetTimeout 2000, ClearTimeout,
             SelectOwner uid, SelectRestaurant uid, ConsoleLogRetry 2, SetTimeout 2000, ClearTimeout,
             SelectOwner uid, SelectRestaurant uid, ConsoleLogRetry 3, SetTimeout 2000, ClearTimeout,
             SelectOwner uid, SelectRestaurant uid])"
  using own nf
  by (cases rest)
     (simp_all add: signed_in_def onAuthStateChange_def initialDashboard_def loadMyData_retry
        loadMyData_settled cleanup_def ok_def is_not_found_def thrown_def)

lemma four_not_found:
  assumes own: "owner_ok o1" "owner_ok o2" "owner_ok o3" "owner_ok o4"
      and nf: "is_not_found (error n1)" "is_not_found (error n2)" "is_not_found (error n3)"
              "is_not_found (error n4)"
  shows "checkRestaurant ((o1, n1) # (o2, n2) # (o3, n3) # (o4, n4) # rest) (signed_in uid) =
           (\<lparr>user = Some uid, owner = data o4, myRestaurant = data n4, restaurantLoaded = True,
             restaurantCheckAttempts = 3, loading = False, orders = []\<rparr>,
            [SelectOwner uid, SelectRestaurant uid, ConsoleLogRetry 1, SetTimeout 2000, ClearTimeout,
             SelectOwner uid, SelectRestaurant uid, ConsoleLogRetry 2, SetTimeout 2000, ClearTimeout,
             SelectOwner uid, SelectRestaurant uid, ConsoleLogRetry 3, SetTimeout 2000, ClearTimeout,
             SelectOwner uid, SelectRestaurant uid])"
  using own nf
  by (cases rest)
     (simp_all add: signed_in_def onAuthStateChange_def initialDashboard_def loadMyData_retry
        loadMyData_settled cleanup_def)

text \<open>
  The retry count of the visibility check. A mounted run whose owner lookup does not throw
  arms the retry timer exactly when the restaurant lookup answers with the not-found
  signal and the attempt counter is below 3; the timer is armed with 2000 ms, one retry
  is scheduled and the counter grows by one; otherwise the check settles. After sign-in,
  three not-found answers followed by a row give exactly 3 retries and 4 lookups and end
  with the restaurant stored; the recovery screen is reached when a fourth consecutive
  not-found answer arrives, again after exactly 3 retries.
\<close>

theorem visibility_retry:
  assumes own: "owner_ok o1" "owner_ok o2" "owner_ok o3" "owner_ok o4"
      and nf: "is_not_found (error n1)" "is_not_found (error n2)" "is_not_found (error n3)"
  shows "(\<forall>st r st' timer evs.
            loadMyData uid True True o1 r st = (st', timer, evs) \<longrightarrow>
              ((timer \<noteq> None) = (is_not_found (error r) \<and> restaurantCheckAttempts st < 3)) \<and>
              (timer \<noteq> None \<longrightarrow>
                 timer = Some 2000 \<and> count_retries evs = 1 \<and> restaurantLoaded st' = restaurantLoaded st \<and>
                 restaurantCheckAttempts st' = restaurantCheckAttempts st + 1) \<and>
              (timer = None \<longrightarrow>
                 count_retries evs = 0 \<and> restaurantLoaded st' \<and> myRestaurant st' = data r \<and>
                 restaurantCheckAttempts st' = restaurantCheckAttempts st))
       \<and> (\<forall>row rest. (case checkRestaurant ((o1, n1) # (o2, n2) # (o3, n3) # (o4, ok row) # rest) (signed_in uid) of
             (st, evs) \<Rightarrow> myRestaurant st = Some row \<and> restaurantLoaded st \<and>
                          count_retries evs = 3 \<and> count_lookups evs = 4))
       \<and> (\<forall>n4 rest. is_not_found (error n4) \<and> data n4 = None \<longrightarrow>
            (case checkRestaurant ((o1, n1) # (o2, n2) # (o3, n3) # (o4, n4) # rest) (signed_in uid) of
             (st, evs) \<Rightarrow> render st = NoRestaurantLinked \<and> restaurantLoaded st \<and>
                          count_retries evs = 3 \<and> count_lookups evs = 4))"
proof -
  have step: "\<forall>st r st' timer evs.
            loadMyData uid True True o1 r st = (st', timer, evs) \<longrightarrow>
              ((timer \<noteq> None) = (is_not_found (error r) \<and> restaurantCheckAttempts st < 3)) \<and>
              (timer \<noteq> None \<longrightarrow>
                 timer = Some 2000 \<and> count_retries evs = 1 \<and> restaurantLoaded st' = restaurantLoaded st \<and>
                 restaurantCheckAttempts st' = restaurantCheckAttempts st + 1) \<and>
              (timer = None \<longrightarrow>
                 count_retries evs = 0 \<and> restaurantLoaded st' \<and> myRestaurant st' = data r \<and>
                 restaurantCheckAttempts st' = restaurantCheckAttempts st)"
    using loadMyData_step[OF own(1)] by blast
  have good: "\<forall>row rest. (case checkRestaurant ((o1, n1) # (o2, n2) # (o3, n3) # (o4, ok row) # rest) (signed_in uid) of
             (st, evs) \<Rightarrow> myRestaurant st = Some row \<and> restaurantLoaded st \<and>
                          count_retries evs = 3 \<and> count_lookups evs = 4)"
    by (intro allI, subst three_not_found_then_row[OF own nf]) (simp add: count_simps)
  have bad: "\<forall>n4 rest. is_not_found (error n4) \<and> data n4 = None \<longrightarrow>
            (case checkRestaurant ((o1, n1) # (o2, n2) # (o3, n3) # (o4, n4) # rest) (signed_in uid) of
             (st, evs) \<Rightarrow> render st = NoRestaurantLinked \<and> restaurantLoaded st \<and>
                          count_retries evs = 3 \<and> count_lookups evs = 4)"
  proof (intro allI impI)
    fix n4 :: "restaurant_row response"
      and rest :: "(owner_row response \<times> restaurant_row response) list"
    assume h: "is_not_found (error n4) \<and> data n4 = None"
    then have n4: "is_not_found (error n4)" by simp
    show "case checkRestaurant ((o1, n1) # (o2, n2) # (o3, n3) # (o4, n4) # rest) (signed_in uid) of
             (st, evs) \<Rightarrow> render st = NoRestaurantLinked \<and> restaurantLoaded st \<and>
                          count_retries evs = 3 \<and> count_lookups evs = 4"
      by (subst four_not_found[OF own nf n4]) (simp add: count_simps render_def h)
  qed
  from step good bad show ?thesis by blast
qed

theorem visibility_retry_witness:
  "owner_ok (ok ex_owner) \<and> is_not_found (error ex_not_found) \<and>
   fst (checkRestaurant [(ok ex_owner, ex_not_found), (ok ex_owner, ex_not_found),
          (ok ex_owner, ex_not_found), (ok ex_owner, ok ex_restaurant)] (signed_in ''u1'')) =
     \<lparr>user = Some ''u1'', owner = Some ex_owner, myRestaurant = Some ex_restaurant,
      restaurantLoaded = True, restaurantCheckAttempts = 3, loading = False, orders = []\<rparr> \<and>
   count_retries (snd (checkRestaurant [(ok ex_owner, ex_not_found), (ok ex_owner, ex_not_found),
          (ok ex_owner, ex_not_found), (ok ex_owner, ok ex_restaurant)] (signed_in ''u1''))) = 3 \<and>
   render (fst (checkRestaurant [(ok ex_owner, ex_not_found), (ok ex_owner, ex_not_found),
          (ok ex_owner, ex_not_found), (ok ex_owner, ex_not_found)] (signed_in ''u1''))) = NoRestaurantLinked"
proof -
  have o: "owner_ok (ok ex_owner)" by (simp add: owner_ok_def ok_def)
  have n: "is_not_found (error ex_not_found)"
    by (simp add: ex_not_found_def failed_def is_not_found_def PGRST116_def)
  have d: "data ex_not_found = None" by (simp add: ex_not_found_def failed_def)
  note t = visibility_retry[OF o o o o n n n, of "''u1''"]
  from t[THEN conjunct2, THEN conjunct1] have a: "\<forall>row rest. (case checkRestaurant ((ok ex_owner, ex_not_found) # (ok ex_owner, ex_not_found) # (ok ex_owner, ex_not_found) # (ok ex_owner, ok row) # rest) (signed_in ''u1'') of
             (st, evs) \<Rightarrow> myRestaurant st = Some row \<and> restaurantLoaded st \<and>
                          count_retries evs = 3 \<and> count_lookups evs = 4)" .
  from t[THEN conjunct2, THEN conjunct2, rule_format, of ex_not_found "[]"] n d have b: "(case checkRestaurant ((ok ex_owner, ex_not_found) # (ok ex_owner, ex_not_found) # (ok ex_owner, ex_not_found) # (ok ex_owner, ex_not_found) # []) (signed_in ''u1'') of
             (st, evs) \<Rightarrow> render st = NoRestaurantLinked \<and> restaurantLoaded st \<and>
                          count_retries evs = 3 \<and> count_lookups evs = 4)" by simp
  have c: "fst (checkRestaurant [(ok ex_owner, ex_not_found), (ok ex_owner, ex_not_found),
          (ok ex_owner, ex_not_found), (ok ex_owner, ok ex_restaurant)] (signed_in ''u1'')) =
     \<lparr>user = Some ''u1'', owner = Some ex_owner, myRestaurant = Some ex_restaurant,
      restaurantLoaded = True, restaurantCheckAttempts = 3, loading = False, orders = []\<rparr>"
    by (subst three_not_found_then_row[OF o o o o n n n]) (simp add: ok_def)
  from a[rule_format, of ex_restaurant "[]"] b c o n show ?thesis
    by (simp add: case_prod_beta)
qed

text \<open>
  After three consecutive not-found answers the check is not final: the counter is 3, a
  third retry has been scheduled and the view still shows the loading screen.
\<close>

theorem three_not_found_pending:
  "\<not> restaurantLoaded (fst (checkRestaurant [(ok ex_owner, ex_not_found), (ok ex_owner, ex_not_found),
          (ok ex_owner, ex_not_found)] (signed_in ''u1'')))
   \<and> render (fst (checkRestaurant [(ok ex_owner, ex_not_found), (ok ex_owner, ex_not_found),
          (ok ex_owner, ex_not_found)] (signed_in ''u1''))) = LoadingScreen
   \<and> restaurantCheckAttempts (fst (checkRestaurant [(ok ex_owner, ex_not_found), (ok ex_owner, ex_not_found),
          (ok ex_owner, ex_not_found)] (signed_in ''u1''))) = 3
   \<and> count_retries (snd (checkRestaurant [(ok ex_owner, ex_not_found), (ok ex_owner, ex_not_found),
          (ok ex_owner, ex_not_found)] (signed_in ''u1''))) = 3"
proof -
  have o: "owner_ok (ok ex_owner)" by (simp add: owner_ok_def ok_def)
  have n: "is_not_found (error ex_not_found)"
    by (simp add: ex_not_found_def failed_def is_not_found_def PGRST116_def)
  have "checkRestaurant [(ok ex_owner, ex_not_found), (ok ex_owner, ex_not_found),
          (ok ex_owner, ex_not_found)] (signed_in ''u1'') =
        (\<lparr>user = Some ''u1'', owner = Some ex_owner, myRestaurant = None, restaurantLoaded = False,
          restaurantCheckAttempts = 3, loading = False, orders = []\<rparr>,
         [SelectOwner ''u1'', SelectRestaurant ''u1'', ConsoleLogRetry 1, SetTimeout 2000, ClearTimeout,
          SelectOwner ''u1'', SelectRestaurant ''u1'', ConsoleLogRetry 2, SetTimeout 2000, ClearTimeout,
          SelectOwner ''u1'', SelectRestaurant ''u1'', ConsoleLogRetry 3, SetTimeout 2000, ClearTimeout])"
    using o n
    by (simp add: signed_in_def onAuthStateChange_def initialDashboard_def loadMyData_retry
          cleanup_def ok_def)
  then show ?thesis by (simp add: render_def count_simps)
qed

text \<open>
  C2. A scheduled retry does not wait for its delay. When, after sign-in, the restaurant
  lookup answers not-found once and then with the row, the first run arms the timer with
  2000 ms and increments the attempt counter; the counter is a dependency of the effect,
  so the effect's cleanup clears the timer and the effect runs again: the second lookup
  is issued with the timer cleared, never fired, and the restaurant is stored with the
  counter at 1. The timer's callback would not have started a lookup either: it leaves
  the state of the first run as it is.
\<close>

theorem retry_without_delay:
  "checkRestaurant [(ok ex_owner, ex_not_found), (ok ex_owner, ok ex_restaurant)] (signed_in ''u1'') =
     (\<lparr>user = Some ''u1'', owner = Some ex_owner, myRestaurant = Some ex_restaurant,
       restaurantLoaded = True, restaurantCheckAttempts = 1, loading = False, orders = []\<rparr>,
      [SelectOwner ''u1'', SelectRestaurant ''u1'', ConsoleLogRetry 1, SetTimeout 2000, ClearTimeout,
       SelectOwner ''u1'', SelectRestaurant ''u1''])
   \<and> loadMyData ''u1'' True True (ok ex_owner) ex_not_found (signed_in ''u1'') =
     (\<lparr>user = Some ''u1'', owner = Some ex_owner, myRestaurant = None,
       restaurantLoaded = False, restaurantCheckAttempts = 1, loading = False, orders = []\<rparr>,
      Some 2000,
      [SelectOwner ''u1'', SelectRestaurant ''u1'', ConsoleLogRetry 1, SetTimeout 2000])
   \<and> retryCallback (fst (loadMyData ''u1'' True True (ok ex_owner) ex_not_found (signed_in ''u1'')))
       = fst (loadMyData ''u1'' True True (ok ex_owner) ex_not_found (signed_in ''u1''))"
proof -
  have o: "owner_ok (ok ex_owner)" by (simp add: owner_ok_def ok_def)
  have n: "is_not_found (error ex_not_found)"
    by (simp add: ex_not_found_def failed_def is_not_found_def PGRST116_def)
  have m: "\<not> is_not_found (error (ok ex_restaurant))" by (simp add: ok_def is_not_found_def)
  have a: "checkRestaurant [(ok ex_owner, ex_not_found), (ok ex_owner, ok ex_restaurant)] (signed_in ''u1'') =
     (\<lparr>user = Some ''u1'', owner = Some ex_owner, myRestaurant = Some ex_restaurant,
       restaurantLoaded = True, restaurantCheckAttempts = 1, loading = False, orders = []\<rparr>,
      [SelectOwner ''u1'', SelectRestaurant ''u1'', ConsoleLogRetry 1, SetTimeout 2000, ClearTimeout,
       SelectOwner ''u1'', SelectRestaurant ''u1''])"
    using o n m
    by (simp add: signed_in_def onAuthStateChange_def initialDashboard_def loadMyData_retry
          loadMyData_settled cleanup_def ok_def thrown_def)
  have b: "loadMyData ''u1'' True True (ok ex_owner) ex_not_found (signed_in ''u1'') =
     (\<lparr>user = Some ''u1'', owner = Some ex_owner, myRestaurant = None,
       restaurantLoaded = False, restaurantCheckAttempts = 1, loading = False, orders = []\<rparr>,
      Some 2000,
      [SelectOwner ''u1'', SelectRestaurant ''u1'', ConsoleLogRetry 1, SetTimeout 2000])"
    using o n
    by (simp add: signed_in_def onAuthStateChange_def initialDashboard_def loadMyData_retry ok_def)
  have c: "retryCallback (fst (loadMyData ''u1'' True True (ok ex_owner) ex_not_found (signed_in ''u1'')))
       = fst (loadMyData ''u1'' True True (ok ex_owner) ex_not_found (signed_in ''u1''))"
    unfolding b by (simp add: retryCallback_def)
  from a b c show ?thesis by (intro conjI)
qed

subsection \<open>Order queue assembly and status update\<close>

lemma set_new_Set_aux:
  "set (foldl (\<lambda>acc x. if x \<in> set acc then acc else acc @ [x]) acc xs) = set acc \<union> set xs"
  by (induction xs arbitrary: acc) auto

lemma set_new_Set: "set (new_Set xs) = set xs"
  by (simp add: new_Set_def set_new_Set_aux)

lemma new_Set_empty: "(new_Set xs = []) = (xs = [])"
  using set_new_Set[of xs] by (metis set_empty)

lemma select_orders_in_new_Set: "select_orders_in tbl (new_Set ids) = select_orders_in tbl ids"
  by (simp add: select_orders_in_def set_new_Set)

lemma js_sum_map:
  "foldl (\<lambda>sum x. js_add sum (js_mul (p x) (of_int (q x)))) a xs
     = foldl (\<lambda>s t. js_add s (double t)) a (map (\<lambda>x. p x * of_int (q x)) xs)"
  by (induction xs arbitrary: a) (simp_all add: js_mul_def)

lemma restaurantSubtotal_sum:
  "restaurantSubtotal (relevantItems lns i) =
     js_sum (map line_total (filter (\<lambda>l. order_id l = i) lns))"
  by (simp add: restaurantSubtotal_def relevantItems_def js_sum_def js_sum_map comp_def
        line_total_def[abs_def])

lemma exact_run_fold:
  "exact_run s ts \<Longrightarrow> foldl (\<lambda>s t. js_add s (double t)) s ts = s + sum_list ts"
  by (induction ts arbitrary: s) (simp_all add: js_add_def algebra_simps)

lemma js_sum_exact: "exact_run 0 ts \<Longrightarrow> js_sum ts = sum_list ts"
  using exact_run_fold[of 0 ts] by (simp add: js_sum_def)

lemma double_examples:
  "double 50 = 50" "double 75 = 75" "double 100 = 100" "double 175 = 175" "double 200 = 200"
  by code_simp+

lemma toFixed2_rounds:
  "(\<exists>n::int. toFixed2 x = of_int n / 100) \<and> \<bar>toFixed2 x - x\<bar> \<le> 1 / 200"
proof -
  have r: "\<And>y::rat. \<bar>of_int \<lfloor>y * 100 + 1 / 2\<rfloor> / 100 - y\<bar> \<le> 1 / 200"
  proof -
    fix y :: rat
    define n where "n = \<lfloor>y * 100 + 1 / 2\<rfloor>"
    have a: "of_int n \<le> y * 100 + 1 / 2" and b: "y * 100 + 1 / 2 < of_int n + 1"
      unfolding n_def by linarith+
    have "of_int n / 100 - y \<le> 1 / 200" using a by linarith
    moreover have "y - of_int n / 100 \<le> 1 / 200" using b by linarith
    ultimately show "\<bar>of_int \<lfloor>y * 100 + 1 / 2\<rfloor> / 100 - y\<bar> \<le> 1 / 200"
      unfolding n_def[symmetric] by linarith
  qed
  show ?thesis
  proof (cases "x < 0")
    case True
    have e: "toFixed2 x = - (of_int \<lfloor>(- x) * 100 + 1 / 2\<rfloor> / 100)"
      using True by (simp add: toFixed2_def)
    have "\<bar>toFixed2 x - x\<bar> \<le> 1 / 200"
      unfolding e using r[of "- x"] by linarith
    moreover have "toFixed2 x = of_int (- \<lfloor>(- x) * 100 + 1 / 2\<rfloor>) / 100"
      unfolding e by simp
    ultimately show ?thesis by blast
  next
    case False
    then show ?thesis using r[of x] by (auto simp: toFixed2_def)
  qed
qed

lemma truncate_fullOrder: "order_header.truncate (fullOrder lns h) = h"
  by (simp add: fullOrder_def order_header.defs full_order.defs Let_def)

lemma fullOrder_fields:
  "oid (fullOrder lns h) = oid h"
  "order_items (fullOrder lns h) = relevantItems lns (oid h)"
  "restaurant_subtotal (fullOrder lns h) = toFixed2 (restaurantSubtotal (relevantItems lns (oid h)))"
  by (simp_all add: fullOrder_def order_header.defs full_order.defs Let_def)

lemma relevantItems_matches:
  "list_all2 matches (relevantItems lns i) (filter (\<lambda>l. order_id l = i) lns)"
  by (simp add: relevantItems_def list_all2_map1 matches_def list.rel_refl)

lemma select_orders_in_props:
  "mset (select_orders_in tbl ids) = mset (filter (\<lambda>h. oid h \<in> set ids) tbl)"
  "desc_by_created_at (select_orders_in tbl ids)"
proof -
  show "mset (select_orders_in tbl ids) = mset (filter (\<lambda>h. oid h \<in> set ids) tbl)"
    by (simp add: select_orders_in_def)
  have "sorted (map (\<lambda>h. - created_at h) (select_orders_in tbl ids))"
    by (simp add: select_orders_in_def)
  then show "desc_by_created_at (select_orders_in tbl ids)"
    by (simp add: desc_by_created_at_def sorted_map)
qed

lemma loadOrders_empty:
  assumes "myRestaurant st = Some r"
  shows "loadOrders (ok []) fetch st = (st\<lparr>orders := [], loading := False\<rparr>, [SelectOrderItems (restaurant_id r)])"
  using assms by (simp add: loadOrders_def ok_def new_Set_def Let_def)

lemma loadOrders_rows:
  assumes "myRestaurant st = Some r" "lns \<noteq> []"
  shows "loadOrders (ok lns) (\<lambda>ids. ok (select_orders_in tbl ids)) st =
           (st\<lparr>orders := map (fullOrder lns) (select_orders_in tbl (map order_id lns)), loading := False\<rparr>,
            [SelectOrderItems (restaurant_id r), SelectOrders (new_Set (map order_id lns))])"
  using assms by (simp add: loadOrders_def ok_def new_Set_empty select_orders_in_new_Set Let_def)

text \<open>
  C4 (as amended). With a restaurant loaded and both fetches succeeding: on zero fetched
  lines the order list becomes empty and the only store call is the line-item query;
  otherwise the list holds exactly the headers of the store whose id occurs among the
  fetched lines, in descending order of creation time, each with the projections of
  exactly the fetched lines bearing its id, in fetch order. \<open>restaurant_subtotal\<close> is
  the multiple of \<open>1/100\<close> nearest to the running double-precision total of the
  products price times quantity over those lines; when no product and no addition of
  that total is rounded, it is the sum of price times quantity rounded to 2 decimal
  places.
\<close>

theorem order_queue_assembly:
  assumes "myRestaurant st = Some r"
  shows "(orders (fst (loadOrders (ok []) fetch st)) = []
          \<and> snd (loadOrders (ok []) fetch st) = [SelectOrderItems (restaurant_id r)])
       \<and> (lns \<noteq> [] \<longrightarrow>
            (case loadOrders (ok lns) (\<lambda>ids. ok (select_orders_in tbl ids)) st of (st', evs) \<Rightarrow>
               mset (map order_header.truncate (orders st'))
                 = mset (filter (\<lambda>h. oid h \<in> order_id ` set lns) tbl)
             \<and> desc_by_created_at (orders st')
             \<and> (\<forall>fo \<in> set (orders st').
                   list_all2 matches (order_items fo) (filter (\<lambda>l. order_id l = oid fo) lns)
                 \<and> restaurant_subtotal fo
                     = toFixed2 (js_sum (map line_total (filter (\<lambda>l. order_id l = oid fo) lns)))
                 \<and> (\<exists>n::int. restaurant_subtotal fo = of_int n / 100)
                 \<and> \<bar>restaurant_subtotal fo
                     - js_sum (map line_total (filter (\<lambda>l. order_id l = oid fo) lns))\<bar> \<le> 1 / 200
                 \<and> (exact_run 0 (map line_total (filter (\<lambda>l. order_id l = oid fo) lns)) \<longrightarrow>
                       restaurant_subtotal fo
                         = toFixed2 (sum_list (map line_total (filter (\<lambda>l. order_id l = oid fo) lns)))
                     \<and> \<bar>restaurant_subtotal fo
                         - sum_list (map line_total (filter (\<lambda>l. order_id l = oid fo) lns))\<bar>
                         \<le> 1 / 200))))"
proof (intro conjI impI)
  show "orders (fst (loadOrders (ok []) fetch st)) = []"
    by (simp add: loadOrders_empty[OF assms])
  show "snd (loadOrders (ok []) fetch st) = [SelectOrderItems (restaurant_id r)]"
    by (simp add: loadOrders_empty[OF assms])
next
  assume ne: "lns \<noteq> []"
  let ?hs = "select_orders_in tbl (map order_id lns)"
  have m: "mset (map order_header.truncate (map (fullOrder lns) ?hs))
             = mset (filter (\<lambda>h. oid h \<in> order_id ` set lns) tbl)"
    using select_orders_in_props(1)[of tbl "map order_id lns"]
    by (simp add: comp_def truncate_fullOrder)
  have "desc_by_created_at ?hs" by (rule select_orders_in_props(2))
  then have d: "desc_by_created_at (map (fullOrder lns) ?hs)"
    by (simp add: desc_by_created_at_def sorted_wrt_map fullOrder_def order_header.defs
          full_order.defs Let_def)
  have e: "\<forall>fo \<in> set (map (fullOrder lns) ?hs).
                   list_all2 matches (order_items fo) (filter (\<lambda>l. order_id l = oid fo) lns)
                 \<and> restaurant_subtotal fo
                     = toFixed2 (js_sum (map line_total (filter (\<lambda>l. order_id l = oid fo) lns)))
                 \<and> (\<exists>n::int. restaurant_subtotal fo = of_int n / 100)
                 \<and> \<bar>restaurant_subtotal fo
                     - js_sum (map line_total (filter (\<lambda>l. order_id l = oid fo) lns))\<bar> \<le> 1 / 200
                 \<and> (exact_run 0 (map line_total (filter (\<lambda>l. order_id l = oid fo) lns)) \<longrightarrow>
                       restaurant_subtotal fo
                         = toFixed2 (sum_list (map line_total (filter (\<lambda>l. order_id l = oid fo) lns)))
                     \<and> \<bar>restaurant_subtotal fo
                         - sum_list (map line_total (filter (\<lambda>l. order_id l = oid fo) lns))\<bar>
                         \<le> 1 / 200)"
  proof
    fix fo assume "fo \<in> set (map (fullOrder lns) ?hs)"
    then obtain h where fo: "fo = fullOrder lns h" by auto
    let ?ts = "map line_total (filter (\<lambda>l. order_id l = oid fo) lns)"
    have 1: "list_all2 matches (order_items fo) (filter (\<lambda>l. order_id l = oid fo) lns)"
      by (simp add: fo fullOrder_fields relevantItems_matches)
    have 2: "restaurant_subtotal fo = toFixed2 (js_sum ?ts)"
      by (simp add: fo fullOrder_fields restaurantSubtotal_sum)
    have 3: "\<exists>n::int. restaurant_subtotal fo = of_int n / 100"
      unfolding 2 using toFixed2_rounds[of "js_sum ?ts"] by blast
    have 4: "\<bar>restaurant_subtotal fo - js_sum ?ts\<bar> \<le> 1 / 200"
      unfolding 2 using toFixed2_rounds[of "js_sum ?ts"] by blast
    have 5: "exact_run 0 ?ts \<longrightarrow>
               restaurant_subtotal fo = toFixed2 (sum_list ?ts)
             \<and> \<bar>restaurant_subtotal fo - sum_list ?ts\<bar> \<le> 1 / 200"
    proof
      assume "exact_run 0 ?ts"
      then have "js_sum ?ts = sum_list ?ts" by (rule js_sum_exact)
      with 2 4 show "restaurant_subtotal fo = toFixed2 (sum_list ?ts)
             \<and> \<bar>restaurant_subtotal fo - sum_list ?ts\<bar> \<le> 1 / 200" by simp
    qed
    from 1 2 3 4 5 show "list_all2 matches (order_items fo) (filter (\<lambda>l. order_id l = oid fo) lns)
                 \<and> restaurant_subtotal fo = toFixed2 (js_sum ?ts)
                 \<and> (\<exists>n::int. restaurant_subtotal fo = of_int n / 100)
                 \<and> \<bar>restaurant_subtotal fo - js_sum ?ts\<bar> \<le> 1 / 200
                 \<and> (exact_run 0 ?ts \<longrightarrow>
                       restaurant_subtotal fo = toFixed2 (sum_list ?ts)
                     \<and> \<bar>restaurant_subtotal fo - sum_list ?ts\<bar> \<le> 1 / 200)"
      by blast
  qed
  have o: "orders (st\<lparr>orders := map (fullOrder lns) ?hs, loading := False\<rparr>)
             = map (fullOrder lns) ?hs" by simp
  show "case loadOrders (ok lns) (\<lambda>ids. ok (select_orders_in tbl ids)) st of (st', evs) \<Rightarrow>
               mset (map order_header.truncate (orders st'))
                 = mset (filter (\<lambda>h. oid h \<in> order_id ` set lns) tbl)
             \<and> desc_by_created_at (orders st')
             \<and> (\<forall>fo \<in> set (orders st').
                   list_all2 matches (order_items fo) (filter (\<lambda>l. order_id l = oid fo) lns)
                 \<and> restaurant_subtotal fo
                     = toFixed2 (js_sum (map line_total (filter (\<lambda>l. order_id l = oid fo) lns)))
                 \<and> (\<exists>n::int. restaurant_subtotal fo = of_int n / 100)
                 \<and> \<bar>restaurant_subtotal fo
                     - js_sum (map line_total (filter (\<lambda>l. order_id l = oid fo) lns))\<bar> \<le> 1 / 200
                 \<and> (exact_run 0 (map line_total (filter (\<lambda>l. order_id l = oid fo) lns)) \<longrightarrow>
                       restaurant_subtotal fo
                         = toFixed2 (sum_list (map line_total (filter (\<lambda>l. order_id l = oid fo) lns)))
                     \<and> \<bar>restaurant_subtotal fo
                         - sum_list (map line_total (filter (\<lambda>l. order_id l = oid fo) lns))\<bar>
                         \<le> 1 / 200))"
    unfolding loadOrders_rows[OF assms ne] prod.case o by (intro conjI m d e)
qed

lemmas assembly_eval =
  loadOrders_def ok_def ex_dashboard_def ex_restaurant_def ex_headers_def
  select_orders_in_def fullOrder_def relevantItems_def restaurantSubtotal_def toFixed2_def
  js_add_def js_mul_def order_header.defs full_order.defs new_Set_def Let_def

lemma ex_assembly:
  "loadOrders (ok ex_lines) (\<lambda>ids. ok (select_orders_in ex_headers ids)) (ex_dashboard\<lparr>orders := []\<rparr>) =
     (ex_dashboard\<lparr>orders :=
        [\<lparr>oid = ''o2'', status = ''Pending'', created_at = 20, user_id = ''c2'',
          order_items = [\<lparr>ri_food_item_id = None, ri_name = ''Cola'', ri_price = 75, ri_quantity = 1\<rparr>],
          restaurant_subtotal = 75\<rparr>,
         \<lparr>oid = ''o1'', status = ''Pending'', created_at = 10, user_id = ''c1'',
          order_items = [\<lparr>ri_food_item_id = None, ri_name = ''Burger'', ri_price = 100, ri_quantity = 1\<rparr>,
                         \<lparr>ri_food_item_id = None, ri_name = ''Fries'', ri_price = 50, ri_quantity = 2\<rparr>],
          restaurant_subtotal = 200\<rparr>]\<rparr>,
      [SelectOrderItems ''r1'', SelectOrders [''o1'', ''o2'']])"
  by (simp add: assembly_eval ex_lines_def double_examples) (intro conjI; linarith)

theorem order_queue_assembly_witness:
  "myRestaurant (ex_dashboard\<lparr>orders := []\<rparr>) = Some ex_restaurant \<and> ex_lines \<noteq> []
   \<and> orders (fst (loadOrders (ok []) (\<lambda>ids. ok (select_orders_in ex_headers ids)) ex_dashboard)) = []
   \<and> map (\<lambda>fo. (oid fo, restaurant_subtotal fo))
        (orders (fst (loadOrders (ok ex_lines) (\<lambda>ids. ok (select_orders_in ex_headers ids))
                  (ex_dashboard\<lparr>orders := []\<rparr>))))
      = [(''o2'', 75), (''o1'', 200)]
   \<and> desc_by_created_at
        (orders (fst (loadOrders (ok ex_lines) (\<lambda>ids. ok (select_orders_in ex_headers ids))
                  (ex_dashboard\<lparr>orders := []\<rparr>))))
   \<and> exact_run 0 (map line_total (filter (\<lambda>l. order_id l = ''o1'') ex_lines))
   \<and> toFixed2 (sum_list (map line_total (filter (\<lambda>l. order_id l = ''o1'') ex_lines))) = 200"
proof -
  have r: "myRestaurant (ex_dashboard\<lparr>orders := []\<rparr>) = Some ex_restaurant"
          "myRestaurant ex_dashboard = Some ex_restaurant"
    by (simp_all add: ex_dashboard_def)
  have n: "ex_lines \<noteq> []" by (simp add: ex_lines_def)
  have a: "orders (fst (loadOrders (ok []) (\<lambda>ids. ok (select_orders_in ex_headers ids)) ex_dashboard)) = []"
    using order_queue_assembly[OF r(2)] by blast
  note t = order_queue_assembly[OF r(1), of _ ex_lines ex_headers, THEN conjunct2, rule_format, OF n]
  have b: "desc_by_created_at
        (orders (fst (loadOrders (ok ex_lines) (\<lambda>ids. ok (select_orders_in ex_headers ids))
                  (ex_dashboard\<lparr>orders := []\<rparr>))))"
    using t by (simp add: case_prod_beta)
  have x: "exact_run 0 (map line_total (filter (\<lambda>l. order_id l = ''o1'') ex_lines))"
    by (simp add: ex_lines_def line_total_def double_examples)
  have o1: "\<exists>fo \<in> set (orders (fst (loadOrders (ok ex_lines) (\<lambda>ids. ok (select_orders_in ex_headers ids))
                  (ex_dashboard\<lparr>orders := []\<rparr>)))). oid fo = ''o1'' \<and> restaurant_subtotal fo = 200"
    by (simp add: ex_assembly)
  then obtain fo where fo: "fo \<in> set (orders (fst (loadOrders (ok ex_lines)
        (\<lambda>ids. ok (select_orders_in ex_headers ids)) (ex_dashboard\<lparr>orders := []\<rparr>))))"
      "oid fo = ''o1''" "restaurant_subtotal fo = 200" by blast
  from t fo(1) have "exact_run 0 (map line_total (filter (\<lambda>l. order_id l = oid fo) ex_lines)) \<longrightarrow>
       restaurant_subtotal fo
         = toFixed2 (sum_list (map line_total (filter (\<lambda>l. order_id l = oid fo) ex_lines)))"
    by (auto simp: case_prod_beta)
  with x fo have c: "toFixed2 (sum_list (map line_total (filter (\<lambda>l. order_id l = ''o1'') ex_lines))) = 200"
    by simp
  show ?thesis using r(1) n a b x c by (simp add: ex_assembly)
qed

text \<open>
  Three pieces at the price 0.165: the program's subtotal is 0.49, while the sum of price
  times quantity is just above 0.495 and rounds to 0.50.
\<close>

lemma float_line_values:
  "js_sum [line_total ex_float_line] = 4458563631096791 / 9007199254740992"
  "toFixed2 (4458563631096791 / 9007199254740992) = 49 / 100"
  "toFixed2 (line_total ex_float_line) = 1 / 2"
  by code_simp+

theorem float_subtotal_counterexample:
  "map restaurant_subtotal
     (orders (fst (loadOrders (ok [ex_float_line]) ex_fetch (ex_dashboard\<lparr>orders := []\<rparr>))))
     = [49 / 100]
   \<and> toFixed2 (line_total ex_float_line) = 1 / 2"
proof -
  have r: "myRestaurant (ex_dashboard\<lparr>orders := []\<rparr>) = Some ex_restaurant"
    by (simp add: ex_dashboard_def)
  have i: "order_id ex_float_line = ''o1''" by (simp add: ex_float_line_def)
  have h: "select_orders_in ex_headers [''o1'']
             = [\<lparr>oid = ''o1'', status = ''Pending'', created_at = 10, user_id = ''c1''\<rparr>]"
    by (simp add: select_orders_in_def ex_headers_def)
  have "orders (fst (loadOrders (ok [ex_float_line]) ex_fetch (ex_dashboard\<lparr>orders := []\<rparr>)))
          = [fullOrder [ex_float_line] \<lparr>oid = ''o1'', status = ''Pending'', created_at = 10, user_id = ''c1''\<rparr>]"
    unfolding ex_fetch_def[abs_def] using loadOrders_rows[OF r, of "[ex_float_line]" ex_headers]
    by (simp add: i h)
  then have "map restaurant_subtotal
     (orders (fst (loadOrders (ok [ex_float_line]) ex_fetch (ex_dashboard\<lparr>orders := []\<rparr>))))
     = [toFixed2 (js_sum [line_total ex_float_line])]"
    by (simp add: fullOrder_fields restaurantSubtotal_sum i)
  then show ?thesis by (simp add: float_line_values)
qed

text \<open>
  The order list under failures and under a write acknowledged while the list is the one
  the callback was created with. A failing line-item fetch or header fetch leaves the
  component state as it was but for the cleared loading flag, so the order list is
  unchanged, and the error is logged; a failing status write leaves the whole state
  unchanged and logs the error; an acknowledged status write whose callback holds the
  current list changes nothing but the order list, whose length is kept and in which
  exactly the orders with the targeted id get the new status, every other field and
  order staying as it was.
\<close>

theorem order_list_atomic:
  "(error itemsResp = Some e \<longrightarrow>
      fst (loadOrders itemsResp fetch st) = (if myRestaurant st = None then st else st\<lparr>loading := False\<rparr>)
      \<and> orders (fst (loadOrders itemsResp fetch st)) = orders st
      \<and> (myRestaurant st \<noteq> None \<longrightarrow> ConsoleError (StoreError e) \<in> set (snd (loadOrders itemsResp fetch st))))
   \<and> (lns \<noteq> [] \<and> error (fetch (new_Set (map order_id lns))) = Some e \<longrightarrow>
      fst (loadOrders (ok lns) fetch st) = (if myRestaurant st = None then st else st\<lparr>loading := False\<rparr>)
      \<and> orders (fst (loadOrders (ok lns) fetch st)) = orders st
      \<and> (myRestaurant st \<noteq> None \<longrightarrow> ConsoleError (StoreError e) \<in> set (snd (loadOrders (ok lns) fetch st))))
   \<and> (error resp = Some e \<longrightarrow>
      fst (updateOrderStatus (orders st) i newStatus resp st) = st
      \<and> ConsoleError (StoreError e) \<in> set (snd (updateOrderStatus (orders st) i newStatus resp st)))
   \<and> (error resp = None \<longrightarrow>
      (fst (updateOrderStatus (orders st) i newStatus resp st))\<lparr>orders := orders st\<rparr> = st
      \<and> length (orders (fst (updateOrderStatus (orders st) i newStatus resp st))) = length (orders st)
      \<and> (\<forall>k < length (orders st).
            orders (fst (updateOrderStatus (orders st) i newStatus resp st)) ! k =
              (if oid (orders st ! k) = i then (orders st ! k)\<lparr>status := newStatus\<rparr> else orders st ! k)))"
  by (auto simp: loadOrders_def updateOrderStatus_def ok_def new_Set_empty Let_def
           split: option.splits)

theorem order_list_atomic_witness:
  "error (failed ex_error :: line_item list response) = Some ex_error
   \<and> orders (fst (loadOrders (failed ex_error) (\<lambda>ids. ok (select_orders_in ex_headers ids)) ex_dashboard))
       = orders ex_dashboard
   \<and> ex_lines \<noteq> []
   \<and> error ((\<lambda>ids. failed ex_error :: order_header list response) (new_Set (map order_id ex_lines)))
       = Some ex_error
   \<and> orders (fst (loadOrders (ok ex_lines) (\<lambda>ids. failed ex_error) ex_dashboard)) = orders ex_dashboard
   \<and> fst (updateOrderStatus (orders ex_dashboard) ''o2'' ''Preparing'' (failed ex_error) ex_dashboard)
       = ex_dashboard
   \<and> error (ok () :: unit response) = None
   \<and> map (\<lambda>fo. (oid fo, status fo))
         (orders (fst (updateOrderStatus (orders ex_dashboard) ''o2'' ''Preparing'' (ok ()) ex_dashboard)))
       = [(''o1'', ''Pending''), (''o2'', ''Preparing''), (''o3'', ''Pending'')]"
proof -
  have f: "error (failed ex_error :: line_item list response) = Some ex_error"
          "error (failed ex_error :: order_header list response) = Some ex_error"
          "error (failed ex_error :: unit response) = Some ex_error"
    by (simp_all add: failed_def)
  have n: "ex_lines \<noteq> []" by (simp add: ex_lines_def)
  have k: "error (ok () :: unit response) = None" by (simp add: ok_def)
  note a = order_list_atomic[where itemsResp = "failed ex_error" and e = ex_error
             and fetch = "\<lambda>ids. ok (select_orders_in ex_headers ids)" and st = ex_dashboard]
  note b = order_list_atomic[where e = ex_error and lns = ex_lines
             and fetch = "\<lambda>ids. failed ex_error" and st = ex_dashboard
             and resp = "failed ex_error" and i = "''o2''" and newStatus = "''Preparing''"]
  note c = order_list_atomic[where st = ex_dashboard and resp = "ok ()" and i = "''o2''"
             and newStatus = "''Preparing''"]
  have 1: "orders (fst (loadOrders (failed ex_error) (\<lambda>ids. ok (select_orders_in ex_headers ids)) ex_dashboard))
       = orders ex_dashboard"
    using a f(1) by blast
  have 2: "orders (fst (loadOrders (ok ex_lines) (\<lambda>ids. failed ex_error) ex_dashboard)) = orders ex_dashboard"
    using b f(2) n by blast
  have 3: "fst (updateOrderStatus (orders ex_dashboard) ''o2'' ''Preparing'' (failed ex_error) ex_dashboard)
       = ex_dashboard"
    using b f(3) by blast
  have 4: "map (\<lambda>fo. (oid fo, status fo))
         (orders (fst (updateOrderStatus (orders ex_dashboard) ''o2'' ''Preparing'' (ok ()) ex_dashboard)))
       = [(''o1'', ''Pending''), (''o2'', ''Preparing''), (''o3'', ''Pending'')]"
    by (simp add: updateOrderStatus_def ok_def ex_dashboard_def ex_headers_def fullOrder_def
          order_header.defs full_order.defs Let_def)
  from c k have "length (orders (fst (updateOrderStatus (orders ex_dashboard) ''o2'' ''Preparing'' (ok ()) ex_dashboard)))
      = length (orders ex_dashboard)" by blast
  with f n k 1 2 3 4 show ?thesis by simp
qed

text \<open>
  C5. An acknowledged status write can change other orders. The callback maps over the
  order list of the render that created it, not over the current list. When two writes
  are started from the same render, for the orders \<open>o1\<close> and \<open>o2\<close>, and both are
  acknowledged, the first sets \<open>o1\<close> to Preparing and the second, built on the list as
  it was before the first, sets \<open>o2\<close> to Preparing and puts \<open>o1\<close> back to Pending.
\<close>

theorem stale_status_write:
  "order_statuses ex_dashboard
     = [(''o1'', ''Pending''), (''o2'', ''Pending''), (''o3'', ''Pending'')]
   \<and> order_statuses (fst (updateOrderStatus (orders ex_dashboard) ''o1'' ''Preparing'' (ok ()) ex_dashboard))
     = [(''o1'', ''Preparing''), (''o2'', ''Pending''), (''o3'', ''Pending'')]
   \<and> order_statuses
       (fst (updateOrderStatus (orders ex_dashboard) ''o2'' ''Preparing'' (ok ())
          (fst (updateOrderStatus (orders ex_dashboard) ''o1'' ''Preparing'' (ok ()) ex_dashboard))))
     = [(''o1'', ''Pending''), (''o2'', ''Preparing''), (''o3'', ''Pending'')]"
  by (simp add: order_statuses_def updateOrderStatus_def ok_def ex_dashboard_def ex_headers_def
        fullOrder_def order_header.defs full_order.defs Let_def)

subsection \<open>Owner registration\<close>

lemma insertLoop_count:
  "length (filter is_restaurant_insert (snd (insertLoop ins row retries created k)))
     \<le> (if created then 0 else retries)"
proof (induction ins row retries created k rule: insertLoop.induct)
  case (1 ins row retries restaurantCreated k)
  show ?case
  proof (cases "retries > 0 \<and> \<not> restaurantCreated")
    case False
    then show ?thesis by (subst insertLoop.simps) auto
  next
    case True
    show ?thesis
    proof (cases "ins k")
      case None
      with True "1.IH"(1) show ?thesis
        by (subst insertLoop.simps) (auto simp: case_prod_beta)
    next
      case (Some e)
      with True "1.IH"(2) show ?thesis
        by (subst insertLoop.simps) (auto simp: case_prod_beta)
    qed
  qed
qed


lemma insertLoop_success:
  "insertLoop ins row retries created k = (Inr u, evs) \<Longrightarrow> \<not> created \<Longrightarrow> retries > 0
     \<Longrightarrow> \<exists>j. k \<le> j \<and> j < k + retries \<and> ins j = None"
proof (induction ins row retries created k arbitrary: evs rule: insertLoop.induct)
  case (1 ins row retries restaurantCreated k)
  note h = "1.prems"
  show ?case
  proof (cases "ins k")
    case None
    with h show ?thesis by (intro exI[of _ k]) simp
  next
    case (Some e)
    show ?thesis
    proof (cases "retries > 1")
      case True
      obtain r evs' where rec: "insertLoop ins row (retries - 1) False (k + 1) = (r, evs')"
        by (cases "insertLoop ins row (retries - 1) False (k + 1)") auto
      with h Some True have "r = Inr u"
        by (subst (asm) insertLoop.simps) auto
      with rec "1.IH"(2)[of e evs'] h Some True
      obtain j where "k + 1 \<le> j" "j < k + 1 + (retries - 1)" "ins j = None"
        by auto
      then show ?thesis by (intro exI[of _ j]) auto
    next
      case False
      with h Some show ?thesis by (subst (asm) insertLoop.simps) auto
    qed
  qed
qed

lemma insertLoop_fail_fail_ok:
  assumes "ins k = Some e0" "ins (Suc k) = Some e1" "ins (Suc (Suc k)) = None"
  shows "insertLoop ins row 3 False k =
           (Inr (), [InsertRestaurant row, Wait 1000, InsertRestaurant row, Wait 1000,
                     InsertRestaurant row])"
  using assms
  by (simp add: insertLoop.simps[of ins row 3 False k] insertLoop.simps[of ins row 2 False "Suc k"]
        insertLoop.simps[of ins row "Suc 0" False "Suc (Suc k)"]
        insertLoop.simps[of ins row "Suc 0" True "Suc (Suc (Suc k))"])

lemma insertLoop_all_fail:
  assumes "ins k = Some e0" "ins (Suc k) = Some e1" "ins (Suc (Suc k)) = Some e2"
  shows "insertLoop ins row 3 False k =
           (Inl (''Failed to register restaurant: '' @ message e2),
            [InsertRestaurant row, Wait 1000, InsertRestaurant row, Wait 1000,
             InsertRestaurant row])"
  using assms
  by (simp add: insertLoop.simps[of ins row 3 False k] insertLoop.simps[of ins row 2 False "Suc k"]
        insertLoop.simps[of ins row "Suc 0" False "Suc (Suc k)"])

text \<open>With a live session and the owner row inserted, the handler is the insert loop
  followed by the read-back.\<close>

lemma handleAuth_live:
  assumes "valid_registration p" "result_error (signUp env) = None"
          "result_user (signUp env) = Some uid" "result_session (signUp env) = Some sess"
          "insertOwner env = None"
  shows "handleAuth env p =
     (let q = p\<lparr>error_text := [], successMessage := NoMessage, page_loading := True\<rparr>;
          evs1 = [SignUp (email p), InsertOwner (owner_row_of p uid)] in
      case insertLoop (insertRestaurant env) (restaurant_row_of p uid) 3 False 0 of
        (Inl m, evs2) \<Rightarrow>
          (q\<lparr>error_text := (if m = [] then ''Authentication failed. Please try again.'' else m),
             page_loading := False\<rparr>, evs1 @ evs2 @ [ConsoleErrorMessage m])
      | (Inr _, evs2) \<Rightarrow>
          (case (error (verifyRestaurant env), data (verifyRestaurant env)) of
             (None, Some v) \<Rightarrow>
               (q\<lparr>successMessage := Registered (restaurant_name v), page_loading := False\<rparr>,
                evs1 @ evs2 @ [Wait 1500, SelectRestaurantByOwner uid, Wait 1500, OnSuccess (Some uid)])
           | _ \<Rightarrow>
               (q\<lparr>error_text := ''Restaurant was created but could not be verified. Please try logging in again.'',
                  page_loading := False\<rparr>,
                evs1 @ evs2 @ [Wait 1500, SelectRestaurantByOwner uid,
                  ConsoleErrorMessage ''Restaurant was created but could not be verified. Please try logging in again.''])))"
  using assms
  by (auto simp: handleAuth_def tryAuth_def valid_registration_def owner_row_of_def
        restaurant_row_of_def Let_def split: prod.splits sum.splits option.splits)


text \<open>
  C6. For a valid registration with a live session and the owner row inserted: the
  restaurant insert is issued at most 3 times; when it fails twice and then succeeds and
  the read-back returns the row, the handler waits 1000 ms after each failed insert,
  waits 1500 ms, reads the restaurant back by owner id, reports success and only then
  calls \<open>onSuccess\<close>; when all three inserts fail it shows the error of the third and
  reports no success, with no read-back; and whenever success is reported, one of the
  first three inserts succeeded and the read-back returned the row.
\<close>

theorem registration_insert_retry:
  assumes v: "valid_registration p"
      and s: "result_error (signUp env) = None" "result_user (signUp env) = Some uid"
             "result_session (signUp env) = Some sess"
      and w: "insertOwner env = None"
  shows "length (filter is_restaurant_insert (snd (handleAuth env p))) \<le> 3
       \<and> (\<forall>e0 e1 row.
             insertRestaurant env 0 = Some e0 \<and> insertRestaurant env 1 = Some e1 \<and>
             insertRestaurant env 2 = None \<and> verifyRestaurant env = ok row \<longrightarrow>
             handleAuth env p =
               (p\<lparr>error_text := [], successMessage := Registered (restaurant_name row),
                  page_loading := False\<rparr>,
                [SignUp (email p), InsertOwner (owner_row_of p uid),
                 InsertRestaurant (restaurant_row_of p uid), Wait 1000,
                 InsertRestaurant (restaurant_row_of p uid), Wait 1000,
                 InsertRestaurant (restaurant_row_of p uid),
                 Wait 1500, SelectRestaurantByOwner uid, Wait 1500, OnSuccess (Some uid)]))
       \<and> (\<forall>e0 e1 e2.
             insertRestaurant env 0 = Some e0 \<and> insertRestaurant env 1 = Some e1 \<and>
             insertRestaurant env 2 = Some e2 \<longrightarrow>
             handleAuth env p =
               (p\<lparr>error_text := ''Failed to register restaurant: '' @ message e2,
                  successMessage := NoMessage, page_loading := False\<rparr>,
                [SignUp (email p), InsertOwner (owner_row_of p uid),
                 InsertRestaurant (restaurant_row_of p uid), Wait 1000,
                 InsertRestaurant (restaurant_row_of p uid), Wait 1000,
                 InsertRestaurant (restaurant_row_of p uid),
                 ConsoleErrorMessage (''Failed to register restaurant: '' @ message e2)]))
       \<and> (successMessage (fst (handleAuth env p)) \<noteq> NoMessage \<longrightarrow>
             (\<exists>row. verifyRestaurant env = ok row \<and>
                    successMessage (fst (handleAuth env p)) = Registered (restaurant_name row)) \<and>
             (\<exists>k<3. insertRestaurant env k = None))"
proof (intro conjI allI impI)
  note live = handleAuth_live[OF v s w]
  obtain r evs2 where loop:
    "insertLoop (insertRestaurant env) (restaurant_row_of p uid) 3 False 0 = (r, evs2)"
    by (cases "insertLoop (insertRestaurant env) (restaurant_row_of p uid) 3 False 0") auto
  have c: "length (filter is_restaurant_insert evs2) \<le> 3"
    using insertLoop_count[of "insertRestaurant env" "restaurant_row_of p uid" 3 False 0] loop
    by simp
  show "length (filter is_restaurant_insert (snd (handleAuth env p))) \<le> 3"
    using c by (auto simp: live loop Let_def split: sum.splits option.splits)
  { fix e0 e1 row
    assume h: "insertRestaurant env 0 = Some e0 \<and> insertRestaurant env 1 = Some e1 \<and>
               insertRestaurant env 2 = None \<and> verifyRestaurant env = ok row"
    then have "insertLoop (insertRestaurant env) (restaurant_row_of p uid) 3 False 0 =
           (Inr (), [InsertRestaurant (restaurant_row_of p uid), Wait 1000,
                     InsertRestaurant (restaurant_row_of p uid), Wait 1000,
                     InsertRestaurant (restaurant_row_of p uid)])"
      by (intro insertLoop_fail_fail_ok) (simp_all add: numeral_2_eq_2)
    with h show "handleAuth env p =
               (p\<lparr>error_text := [], successMessage := Registered (restaurant_name row),
                  page_loading := False\<rparr>,
                [SignUp (email p), InsertOwner (owner_row_of p uid),
                 InsertRestaurant (restaurant_row_of p uid), Wait 1000,
                 InsertRestaurant (restaurant_row_of p uid), Wait 1000,
                 InsertRestaurant (restaurant_row_of p uid),
                 Wait 1500, SelectRestaurantByOwner uid, Wait 1500, OnSuccess (Some uid)])"
      by (simp add: live ok_def Let_def)
  }
  { fix e0 e1 e2
    assume h: "insertRestaurant env 0 = Some e0 \<and> insertRestaurant env 1 = Some e1 \<and>
               insertRestaurant env 2 = Some e2"
    then have "insertLoop (insertRestaurant env) (restaurant_row_of p uid) 3 False 0 =
           (Inl (''Failed to register restaurant: '' @ message e2),
            [InsertRestaurant (restaurant_row_of p uid), Wait 1000,
             InsertRestaurant (restaurant_row_of p uid), Wait 1000,
             InsertRestaurant (restaurant_row_of p uid)])"
      by (intro insertLoop_all_fail) (simp_all add: numeral_2_eq_2)
    then show "handleAuth env p =
               (p\<lparr>error_text := ''Failed to register restaurant: '' @ message e2,
                  successMessage := NoMessage, page_loading := False\<rparr>,
                [SignUp (email p), InsertOwner (owner_row_of p uid),
                 InsertRestaurant (restaurant_row_of p uid), Wait 1000,
                 InsertRestaurant (restaurant_row_of p uid), Wait 1000,
                 InsertRestaurant (restaurant_row_of p uid),
                 ConsoleErrorMessage (''Failed to register restaurant: '' @ message e2)])"
      by (simp add: live Let_def)
  }
  { assume m: "successMessage (fst (handleAuth env p)) \<noteq> NoMessage"
    from m have r: "\<exists>u. r = Inr u"
      by (cases r) (auto simp: live loop Let_def)
    with m show "\<exists>row. verifyRestaurant env = ok row \<and>
                    successMessage (fst (handleAuth env p)) = Registered (restaurant_name row)"
      by (cases "verifyRestaurant env")
         (auto simp: live loop ok_def Let_def split: option.splits)
    from r loop insertLoop_success[of "insertRestaurant env" "restaurant_row_of p uid" 3 False 0 _ evs2]
    show "\<exists>k<3. insertRestaurant env k = None" by auto
  }
qed

theorem registration_insert_retry_witness:
  "valid_registration ex_page
   \<and> addressBarangay ex_page = ''Tibanga'' \<and> restaurantCategoryId ex_page = ''7''
   \<and> fail_twice 0 \<noteq> None \<and> fail_twice 1 \<noteq> None \<and> fail_twice 2 = None
   \<and> successMessage (fst (handleAuth (ex_env fail_twice (Some ''s'')) ex_page)) = Registered ''A''
   \<and> length (filter is_restaurant_insert (snd (handleAuth (ex_env fail_twice (Some ''s'')) ex_page))) = 3
   \<and> error_text (fst (handleAuth (ex_env fail_always (Some ''s'')) ex_page))
       = ''Failed to register restaurant: transient''
   \<and> successMessage (fst (handleAuth (ex_env fail_always (Some ''s'')) ex_page)) = NoMessage"
proof -
  have v: "valid_registration ex_page" by (simp add: valid_registration_def ex_page_def)
  have s: "result_error (signUp (ex_env ins (Some ''s''))) = None"
          "result_user (signUp (ex_env ins (Some ''s''))) = Some ''u1''"
          "result_session (signUp (ex_env ins (Some ''s''))) = Some ''s''"
          "insertOwner (ex_env ins (Some ''s'')) = None" for ins
    by (simp_all add: ex_env_def)
  note a = registration_insert_retry[OF v s(1)[of fail_twice] s(2)[of fail_twice]
             s(3)[of fail_twice] s(4)[of fail_twice]]
  note b = registration_insert_retry[OF v s(1)[of fail_always] s(2)[of fail_always]
             s(3)[of fail_always] s(4)[of fail_always]]
  have 1: "handleAuth (ex_env fail_twice (Some ''s'')) ex_page =
               (ex_page\<lparr>error_text := [], successMessage := Registered (restaurant_name ex_restaurant),
                  page_loading := False\<rparr>,
                [SignUp (email ex_page), InsertOwner (owner_row_of ex_page ''u1''),
                 InsertRestaurant (restaurant_row_of ex_page ''u1''), Wait 1000,
                 InsertRestaurant (restaurant_row_of ex_page ''u1''), Wait 1000,
                 InsertRestaurant (restaurant_row_of ex_page ''u1''),
                 Wait 1500, SelectRestaurantByOwner ''u1'', Wait 1500, OnSuccess (Some ''u1'')])"
    using a[THEN conjunct2, THEN conjunct1, rule_format, of ex_transient ex_transient ex_restaurant]
    by (simp add: ex_env_def fail_twice_def)
  have 2: "handleAuth (ex_env fail_always (Some ''s'')) ex_page =
               (ex_page\<lparr>error_text := ''Failed to register restaurant: '' @ message ex_transient,
                  successMessage := NoMessage, page_loading := False\<rparr>,
                [SignUp (email ex_page), InsertOwner (owner_row_of ex_page ''u1''),
                 InsertRestaurant (restaurant_row_of ex_page ''u1''), Wait 1000,
                 InsertRestaurant (restaurant_row_of ex_page ''u1''), Wait 1000,
                 InsertRestaurant (restaurant_row_of ex_page ''u1''),
                 ConsoleErrorMessage (''Failed to register restaurant: '' @ message ex_transient)])"
    using b[THEN conjunct2, THEN conjunct2, THEN conjunct1, rule_format,
            of ex_transient ex_transient ex_transient]
    by (simp add: ex_env_def fail_always_def)
  show ?thesis
    using v by (simp add: 1 2 ex_restaurant_def ex_transient_def fail_twice_def) (simp add: ex_page_def)
qed

text \<open>
  C10. For a valid registration whose sign-up succeeds with a \<open>null\<close> session, the
  handler's only events are the sign-up call and the 3-second timer: no owner insert, no
  restaurant insert and no read-back; it shows the confirmation message, and the timer's
  callback switches to the login view.
\<close>

theorem null_session_no_store_access:
  assumes "valid_registration p" "result_error (signUp env) = None"
          "result_session (signUp env) = None"
  shows "handleAuth env p =
           (p\<lparr>error_text := [], successMessage := CheckEmail, page_loading := False\<rparr>,
            [SignUp (email p), SetTimeoutSetIsLogin 3000])
       \<and> filter is_store_access (snd (handleAuth env p)) = []
       \<and> isLogin (setIsLoginTimer (fst (handleAuth env p)))"
  using assms
  by (auto simp: handleAuth_def tryAuth_def valid_registration_def setIsLoginTimer_def Let_def
           split: option.splits)

theorem null_session_no_store_access_witness:
  "valid_registration ex_page
   \<and> result_error (signUp (ex_env fail_twice None)) = None
   \<and> result_session (signUp (ex_env fail_twice None)) = None
   \<and> snd (handleAuth (ex_env fail_twice None) ex_page)
       = [SignUp ''juan@example.com'', SetTimeoutSetIsLogin 3000]
   \<and> successMessage (fst (handleAuth (ex_env fail_twice None) ex_page)) = CheckEmail"
proof -
  have v: "valid_registration ex_page" by (simp add: valid_registration_def ex_page_def)
  have s: "result_error (signUp (ex_env fail_twice None)) = None"
          "result_session (signUp (ex_env fail_twice None)) = None"
    by (simp_all add: ex_env_def)
  from null_session_no_store_access[OF v s] v s show ?thesis
    by (simp add: ex_page_def)
qed

subsection \<open>Image resolution\<close>

lemma dropWhile_id: "xs = [] \<or> \<not> P (hd xs) \<Longrightarrow> dropWhile P xs = xs"
  by (cases xs) auto

lemma dropWhile_hd: "dropWhile P xs \<noteq> [] \<Longrightarrow> \<not> P (hd (dropWhile P xs))"
  by (simp add: hd_dropWhile)

lemma trim_trim: "trim (trim s) = trim s"
proof -
  define a where "a = dropWhile is_white_space s"
  define b where "b = dropWhile is_white_space (rev a)"
  have t: "trim s = rev b" by (simp add: trim_def a_def b_def)
  have hb: "b = [] \<or> \<not> is_white_space (hd b)"
    unfolding b_def using hd_dropWhile[of is_white_space "rev a"] by blast
  have "rev a = takeWhile is_white_space (rev a) @ b" by (simp add: b_def)
  then have "rev (rev a) = rev (takeWhile is_white_space (rev a) @ b)" by simp
  then have pre: "a = rev b @ rev (takeWhile is_white_space (rev a))" by simp
  have ha: "rev b = [] \<or> \<not> is_white_space (hd (rev b))"
  proof (cases "rev b = []")
    case False
    with pre have "a \<noteq> []" by (metis append_is_Nil_conv)
    then have "\<not> is_white_space (hd a)"
      unfolding a_def using hd_dropWhile[of is_white_space s] by blast
    moreover have "hd a = hd (rev b)" using pre False by (metis hd_append2)
    ultimately show ?thesis by simp
  qed simp
  have "dropWhile is_white_space (rev b) = rev b" using ha by (rule dropWhile_id)
  moreover have "dropWhile is_white_space b = b" using hb by (rule dropWhile_id)
  ultimately have "trim (rev b) = rev b" by (simp add: trim_def)
  then show ?thesis by (simp add: t)
qed

lemma is_address_nonempty: "is_address v \<Longrightarrow> v \<noteq> []"
  by (auto simp: is_address_def is_http_def is_data_def)

lemma resolveImage_string:
  assumes "s \<noteq> []"
  shows "resolveImage g (ImgStr s) =
           (if is_address (trim s) then Some (trim s)
            else probeBuckets g (strip_slashes (trim s)) bucketsToTry)"
  using assms by (simp add: resolveImage_def truthy_image_def is_address_def Let_def)

lemma truthy_Some: "truthy (Some s) = (s \<noteq> [])" and truthy_None: "\<not> truthy None"
  by (simp_all add: truthy_def)

lemma js_or_truthy: "truthy (js_or a b) = (truthy a \<or> truthy b)"
  by (simp add: js_or_def)

lemma ref_value_truthy: "ref_value raw = Some s \<Longrightarrow> s \<noteq> []"
  by (cases raw)
     (auto simp: ref_value_def js_or_def truthy_def split: if_splits option.splits)

lemma resolveImage_ref_value:
  "resolveImage g raw =
     (case ref_value raw of None \<Rightarrow> None | Some s \<Rightarrow> resolveImage g (ImgStr s))"
proof (cases raw)
  case ImgNull
  then show ?thesis by (simp add: resolveImage_def truthy_image_def ref_value_def)
next
  case (ImgStr s)
  then show ?thesis by (simp add: resolveImage_def truthy_image_def ref_value_def)
next
  case (ImgObj x)
  show ?thesis
  proof (cases "ref_value raw")
    case None
    with ImgObj show ?thesis
      by (simp add: resolveImage_def truthy_image_def ref_value_def Let_def)
  next
    case (Some s)
    with ref_value_truthy[OF Some] ImgObj show ?thesis
      by (simp add: resolveImage_def truthy_image_def ref_value_def Let_def)
  qed
qed

lemma probeBuckets_two:
  "probeBuckets g key bucketsToTry =
     (case yields g ''food-images'' key of
        Some u \<Rightarrow> Some u
      | None \<Rightarrow> yields g ''restaurant-images'' key)"
  by (auto simp: bucketsToTry_def yields_def Let_def truthy_def split: option.splits)

lemma probeBuckets_first:
  "probeBuckets g key bs = Some u \<longleftrightarrow>
     (\<exists>i < length bs. yields g (bs ! i) key = Some u \<and> (\<forall>j < i. yields g (bs ! j) key = None))"
proof (induction bs)
  case Nil
  then show ?case by simp
next
  case (Cons b bs)
  show ?case
  proof (cases "yields g b key")
    case None
    then have p: "probeBuckets g key (b # bs) = probeBuckets g key bs"
      by (auto simp: yields_def Let_def truthy_def split: option.splits if_splits)
    have "(\<exists>i < length (b # bs). yields g ((b # bs) ! i) key = Some u \<and>
              (\<forall>j < i. yields g ((b # bs) ! j) key = None))
          = (\<exists>i < length bs. yields g (bs ! i) key = Some u \<and> (\<forall>j < i. yields g (bs ! j) key = None))"
      (is "?L = ?R")
    proof
      assume ?L
      then obtain i where i: "i < length (b # bs)" "yields g ((b # bs) ! i) key = Some u"
        "\<forall>j < i. yields g ((b # bs) ! j) key = None" by blast
      with None obtain i' where "i = Suc i'" by (cases i) auto
      with i show ?R by (intro exI[of _ i']) auto
    next
      assume ?R
      then obtain i where i: "i < length bs" "yields g (bs ! i) key = Some u"
        "\<forall>j < i. yields g (bs ! j) key = None" by blast
      with None show ?L by (intro exI[of _ "Suc i"]) (auto simp: less_Suc_eq_0_disj)
    qed
    with p Cons.IH show ?thesis by simp
  next
    case (Some v)
    then have p: "probeBuckets g key (b # bs) = Some v"
      by (auto simp: yields_def Let_def split: if_splits)
    show ?thesis
    proof
      assume "probeBuckets g key (b # bs) = Some u"
      with p Some show "\<exists>i < length (b # bs). yields g ((b # bs) ! i) key = Some u \<and>
              (\<forall>j < i. yields g ((b # bs) ! j) key = None)"
        by (intro exI[of _ 0]) auto
    next
      assume "\<exists>i < length (b # bs). yields g ((b # bs) ! i) key = Some u \<and>
              (\<forall>j < i. yields g ((b # bs) ! j) key = None)"
      then obtain i where i: "yields g ((b # bs) ! i) key = Some u"
        "\<forall>j < i. yields g ((b # bs) ! j) key = None" by blast
      with Some have "i = 0" by (cases i) auto
      with i Some p show "probeBuckets g key (b # bs) = Some u" by simp
    qed
  qed
qed


text \<open>
  C7 (as amended). A reference without a value (\<open>null\<close>, the empty string, an object with
  no truthy address field) resolves to no image. Otherwise the value is trimmed of
  surrounding white space: when the trimmed value is an http or https address (in any
  letter case) or starts with \<open>data:\<close>, the result is the trimmed value, which is the
  value itself when it has no surrounding white space; otherwise the leading slashes of
  the trimmed value are stripped and the result is what \<open>food-images\<close> yields for this
  key, else what \<open>restaurant-images\<close> yields, a probe that throws counting as one that
  yields nothing, and no image when neither yields.
\<close>

theorem image_resolution_cases:
  "(ref_value raw = None \<longrightarrow> resolveImage g raw = None)
   \<and> (\<forall>s. ref_value raw = Some s \<and> is_address (trim s) \<longrightarrow>
          resolveImage g raw = Some (trim s) \<and> (trimmed s \<longrightarrow> resolveImage g raw = Some s))
   \<and> (\<forall>s. ref_value raw = Some s \<and> \<not> is_address (trim s) \<longrightarrow>
          resolveImage g raw =
            (case yields g ''food-images'' (strip_slashes (trim s)) of
               Some u \<Rightarrow> Some u
             | None \<Rightarrow> yields g ''restaurant-images'' (strip_slashes (trim s)))
          \<and> (g ''food-images'' (strip_slashes (trim s)) = ProbeThrows \<longrightarrow>
                resolveImage g raw = yields g ''restaurant-images'' (strip_slashes (trim s)))
          \<and> (yields g ''food-images'' (strip_slashes (trim s)) = None \<and>
              yields g ''restaurant-images'' (strip_slashes (trim s)) = None \<longrightarrow>
                resolveImage g raw = None))"
proof (intro conjI allI impI)
  show "resolveImage g raw = None" if "ref_value raw = None"
    using that by (subst resolveImage_ref_value) simp
next
  fix s assume h: "ref_value raw = Some s \<and> is_address (trim s)"
  then have "s \<noteq> []" using ref_value_truthy by blast
  with h show r: "resolveImage g raw = Some (trim s)"
    by (subst resolveImage_ref_value) (simp add: resolveImage_string)
  show "resolveImage g raw = Some s" if "trimmed s"
    using r that by (simp add: trimmed_def)
next
  fix s assume h: "ref_value raw = Some s \<and> \<not> is_address (trim s)"
  then have "s \<noteq> []" using ref_value_truthy by blast
  with h show r: "resolveImage g raw =
            (case yields g ''food-images'' (strip_slashes (trim s)) of
               Some u \<Rightarrow> Some u
             | None \<Rightarrow> yields g ''restaurant-images'' (strip_slashes (trim s)))"
    by (subst resolveImage_ref_value) (simp add: resolveImage_string probeBuckets_two)
  show "resolveImage g raw = yields g ''restaurant-images'' (strip_slashes (trim s))"
    if "g ''food-images'' (strip_slashes (trim s)) = ProbeThrows"
    using r that by (simp add: yields_def probe_publicUrl_def truthy_def)
  show "resolveImage g raw = None"
    if "yields g ''food-images'' (strip_slashes (trim s)) = None \<and>
        yields g ''restaurant-images'' (strip_slashes (trim s)) = None"
    using r that by simp
qed

lemma trim_examples:
  "trim '' /burger.png'' = ''/burger.png''"
  "trim ''https://a.example.com/x.png'' = ''https://a.example.com/x.png''"
  "trim ''https://a.example.com/x.png '' = ''https://a.example.com/x.png''"
  "trim ''http://example.com/logo.png '' = ''http://example.com/logo.png''"
  "trim ''http://example.com/logo.png'' = ''http://example.com/logo.png''"
  "trim ''https://cdn.example.com/food-images/placeholder.png''
     = ''https://cdn.example.com/food-images/placeholder.png''"
  by (simp_all add: trim_def is_white_space_def)

theorem image_resolution_cases_witness:
  "ref_value (ImgStr '' /burger.png'') = Some '' /burger.png''
   \<and> \<not> is_address (trim '' /burger.png'')
   \<and> ex_storage ''food-images'' (strip_slashes (trim '' /burger.png'')) = ProbeThrows
   \<and> resolveImage ex_storage (ImgStr '' /burger.png'')
       = Some ''https://cdn.example.com/restaurant-images/burger.png''
   \<and> resolveImage ex_no_storage (ImgStr '' /burger.png'') = None
   \<and> ref_value (ImgStr ''https://a.example.com/x.png'') = Some ''https://a.example.com/x.png''
   \<and> is_address (trim ''https://a.example.com/x.png'') \<and> trimmed ''https://a.example.com/x.png''
   \<and> resolveImage ex_storage (ImgStr ''https://a.example.com/x.png'') = Some ''https://a.example.com/x.png''
   \<and> ref_value ImgNull = None \<and> resolveImage ex_storage ImgNull = None"
proof -
  have r1: "ref_value (ImgStr '' /burger.png'') = Some '' /burger.png''"
    and r2: "ref_value (ImgStr ''https://a.example.com/x.png'') = Some ''https://a.example.com/x.png''"
    and r3: "ref_value ImgNull = None"
    by (simp_all add: ref_value_def)
  have n1: "\<not> is_address (trim '' /burger.png'')"
    by (simp add: trim_examples is_address_def is_http_def is_data_def lower_def)
  have a2: "is_address (trim ''https://a.example.com/x.png'')"
    by (simp add: trim_examples is_address_def is_http_def lower_def)
  have t2: "trimmed ''https://a.example.com/x.png''"
    by (simp add: trimmed_def trim_examples)
  have k: "strip_slashes (trim '' /burger.png'') = ''burger.png''"
    by (simp add: trim_examples strip_slashes_def)
  have th: "ex_storage ''food-images'' (strip_slashes (trim '' /burger.png'')) = ProbeThrows"
    by (simp add: ex_storage_def)
  have y: "yields ex_storage ''restaurant-images'' ''burger.png''
             = Some ''https://cdn.example.com/restaurant-images/burger.png''"
    by (simp add: yields_def ex_storage_def probe_publicUrl_def js_or_def truthy_def)
  have y0: "yields ex_no_storage ''food-images'' ''burger.png'' = None"
           "yields ex_no_storage ''restaurant-images'' ''burger.png'' = None"
    by (simp_all add: yields_def ex_no_storage_def probe_publicUrl_def truthy_def)
  note c1 = image_resolution_cases[of "ImgStr '' /burger.png''" ex_storage]
  note c2 = image_resolution_cases[of "ImgStr '' /burger.png''" ex_no_storage]
  note c3 = image_resolution_cases[of "ImgStr ''https://a.example.com/x.png''" ex_storage]
  note c4 = image_resolution_cases[of ImgNull ex_storage]
  have 1: "resolveImage ex_storage (ImgStr '' /burger.png'')
       = Some ''https://cdn.example.com/restaurant-images/burger.png''"
  proof -
    have "resolveImage ex_storage (ImgStr '' /burger.png'')
            = yields ex_storage ''restaurant-images'' (strip_slashes (trim '' /burger.png''))"
      using c1[THEN conjunct2, THEN conjunct2, rule_format, of "'' /burger.png''"] r1 n1 th
      by blast
    then show ?thesis by (simp only: k y)
  qed
  have 2: "resolveImage ex_no_storage (ImgStr '' /burger.png'') = None"
    using c2[THEN conjunct2, THEN conjunct2, rule_format, of "'' /burger.png''"] r1 n1 y0
    unfolding k by blast
  have 3: "resolveImage ex_storage (ImgStr ''https://a.example.com/x.png'') = Some ''https://a.example.com/x.png''"
    using c3[THEN conjunct2, THEN conjunct1, rule_format, of "''https://a.example.com/x.png''"] r2 a2 t2
    by blast
  have 4: "resolveImage ex_storage ImgNull = None"
    using c4[THEN conjunct1] r3 by blast
  from r1 r2 r3 n1 a2 t2 th 1 2 3 4 show ?thesis by simp
qed

text \<open>
  An https address followed by a space is not returned verbatim: the result is the
  address without the space.
\<close>

theorem address_not_verbatim_counterexample:
  "is_http ''https://a.example.com/x.png ''
   \<and> resolveImage ex_storage (ImgStr ''https://a.example.com/x.png '')
       \<noteq> Some ''https://a.example.com/x.png ''
   \<and> resolveImage ex_storage (ImgStr ''https://a.example.com/x.png '')
       = Some ''https://a.example.com/x.png''"
  by (simp add: resolveImage_string trim_examples is_address_def is_http_def lower_def)

text \<open>
  C8 (as amended). Whenever resolution yields a fully-qualified address without
  surrounding white space, resolving that address again returns it unchanged; resolving
  the result of a resolution gives the same result whenever every public address the
  storage yields is such an address; every non-empty reference whose trimmed form is an
  http or https address resolves to the trimmed form, and resolving that result again
  gives it back; so an http or https address without surrounding white space resolves to
  itself.
\<close>

theorem image_resolution_idempotent:
  "(\<forall>u. resolveImage g raw = Some u \<and> is_address u \<and> trimmed u \<longrightarrow>
         resolveImage g (ImgStr u) = Some u)
   \<and> ((\<forall>b k u. yields g b k = Some u \<longrightarrow> is_address u \<and> trimmed u) \<longrightarrow>
         resolveImage g (image_of (resolveImage g raw)) = resolveImage g raw)
   \<and> (\<forall>s. s \<noteq> [] \<and> is_http (trim s) \<longrightarrow>
         resolveImage g (ImgStr s) = Some (trim s)
         \<and> resolveImage g (image_of (resolveImage g (ImgStr s))) = resolveImage g (ImgStr s))
   \<and> (\<forall>s. is_http s \<and> trimmed s \<longrightarrow> resolveImage g (ImgStr s) = Some s)"
proof -
  have fix_point: "resolveImage g (ImgStr u) = Some u" if "is_address u" "trimmed u" for u
    using that is_address_nonempty[of u] by (simp add: resolveImage_string trimmed_def)
  have direct: "resolveImage g (ImgStr s) = Some (trim s)" if "s \<noteq> []" "is_address (trim s)" for s
    using that by (simp add: resolveImage_string)
  have tt: "trimmed (trim s)" for s by (simp add: trimmed_def trim_trim)
  have a: "\<forall>u. resolveImage g raw = Some u \<and> is_address u \<and> trimmed u \<longrightarrow>
         resolveImage g (ImgStr u) = Some u"
    using fix_point by blast
  have b: "(\<forall>b k u. yields g b k = Some u \<longrightarrow> is_address u \<and> trimmed u) \<longrightarrow>
         resolveImage g (image_of (resolveImage g raw)) = resolveImage g raw"
  proof
    assume c: "\<forall>b k u. yields g b k = Some u \<longrightarrow> is_address u \<and> trimmed u"
    show "resolveImage g (image_of (resolveImage g raw)) = resolveImage g raw"
    proof (cases "resolveImage g raw")
      case None
      then show ?thesis by (simp add: image_of_def resolveImage_def truthy_image_def)
    next
      case (Some u)
      have "is_address u \<and> trimmed u"
      proof (cases "ref_value raw")
        case None
        with Some show ?thesis by (subst (asm) resolveImage_ref_value) simp
      next
        case (Some s)
        then have ne: "s \<noteq> []" by (rule ref_value_truthy)
        show ?thesis
        proof (cases "is_address (trim s)")
          case True
          with \<open>resolveImage g raw = Some u\<close> Some ne have "u = trim s"
            by (subst (asm) resolveImage_ref_value) (simp add: resolveImage_string)
          with True tt show ?thesis by simp
        next
          case False
          with \<open>resolveImage g raw = Some u\<close> Some ne
          have "probeBuckets g (strip_slashes (trim s)) bucketsToTry = Some u"
            by (subst (asm) resolveImage_ref_value) (simp add: resolveImage_string)
          then obtain i where "yields g (bucketsToTry ! i) (strip_slashes (trim s)) = Some u"
            unfolding probeBuckets_first by blast
          with c show ?thesis by blast
        qed
      qed
      with Some fix_point show ?thesis by (simp add: image_of_def)
    qed
  qed
  have c: "\<forall>s. s \<noteq> [] \<and> is_http (trim s) \<longrightarrow>
         resolveImage g (ImgStr s) = Some (trim s)
         \<and> resolveImage g (image_of (resolveImage g (ImgStr s))) = resolveImage g (ImgStr s)"
    using direct fix_point tt by (auto simp: is_address_def image_of_def)
  have d: "\<forall>s. is_http s \<and> trimmed s \<longrightarrow> resolveImage g (ImgStr s) = Some s"
    using fix_point by (auto simp: is_address_def)
  from a b c d show ?thesis by blast
qed

text \<open>An http address followed by a space does not resolve to itself.\<close>

theorem address_not_fixed_counterexample:
  "is_http ''http://example.com/logo.png ''
   \<and> resolveImage ex_no_storage (ImgStr ''http://example.com/logo.png '')
       \<noteq> Some ''http://example.com/logo.png ''"
  by (simp add: resolveImage_string trim_examples is_address_def is_http_def lower_def)

theorem image_resolution_idempotent_witness:
  "resolveImage ex_fixed_storage (ImgStr ''/burger.png'')
       = Some ''https://cdn.example.com/food-images/placeholder.png''
   \<and> resolveImage ex_fixed_storage (image_of (resolveImage ex_fixed_storage (ImgStr ''/burger.png'')))
       = resolveImage ex_fixed_storage (ImgStr ''/burger.png'')
   \<and> is_http (trim ''http://example.com/logo.png '')
   \<and> resolveImage ex_fixed_storage (ImgStr ''http://example.com/logo.png '')
       = Some ''http://example.com/logo.png''
   \<and> is_http ''http://example.com/logo.png'' \<and> trimmed ''http://example.com/logo.png''
   \<and> resolveImage ex_fixed_storage (ImgStr ''http://example.com/logo.png'')
       = Some ''http://example.com/logo.png''"
proof -
  have h: "\<forall>b k u. yields ex_fixed_storage b k = Some u \<longrightarrow> is_address u \<and> trimmed u"
    by (auto simp: yields_def ex_fixed_storage_def probe_publicUrl_def js_or_def truthy_def
          is_address_def is_http_def lower_def trimmed_def trim_examples split: if_splits)
  have r: "resolveImage ex_fixed_storage (ImgStr ''/burger.png'')
       = Some ''https://cdn.example.com/food-images/placeholder.png''"
    by (simp add: resolveImage_def truthy_image_def trim_def is_white_space_def is_http_def
          is_data_def lower_def strip_slashes_def bucketsToTry_def ex_fixed_storage_def
          probe_publicUrl_def js_or_def truthy_def Let_def)
  have p: "is_http (trim ''http://example.com/logo.png '')"
          "is_http ''http://example.com/logo.png''" "trimmed ''http://example.com/logo.png''"
    by (simp_all add: trim_examples is_http_def lower_def trimmed_def)
  note t1 = image_resolution_idempotent[of ex_fixed_storage "ImgStr ''/burger.png''"]
  have 1: "resolveImage ex_fixed_storage (image_of (resolveImage ex_fixed_storage (ImgStr ''/burger.png'')))
       = resolveImage ex_fixed_storage (ImgStr ''/burger.png'')"
    using t1[THEN conjunct2, THEN conjunct1] h by blast
  have 2: "resolveImage ex_fixed_storage (ImgStr ''http://example.com/logo.png '')
       = Some ''http://example.com/logo.png''"
    using t1[THEN conjunct2, THEN conjunct2, THEN conjunct1, rule_format,
             of "''http://example.com/logo.png ''"] p(1)
    by (simp add: trim_examples)
  have 3: "resolveImage ex_fixed_storage (ImgStr ''http://example.com/logo.png'')
       = Some ''http://example.com/logo.png''"
    using t1[THEN conjunct2, THEN conjunct2, THEN conjunct2, rule_format,
             of "''http://example.com/logo.png''"] p(2,3)
    by simp
  from r 1 2 3 p show ?thesis by blast
qed

subsection \<open>Order history segmentation\<close>

lemma group_items_append:
  "group_items acc (xs @ ys) =
     (case group_items acc xs of Inl e \<Rightarrow> Inl e | Inr a \<Rightarrow> group_items a ys)"
  by (induction xs arbitrary: acc) (auto split: sum.splits)

lemma new_Set_snoc:
  "new_Set (xs @ [x]) = (if x \<in> set (new_Set xs) then new_Set xs else new_Set xs @ [x])"
  by (simp add: new_Set_def)

lemma distinct_new_Set_aux:
  "distinct acc \<Longrightarrow> distinct (foldl (\<lambda>acc x. if x \<in> set acc then acc else acc @ [x]) acc xs)"
  by (induction xs arbitrary: acc) auto

lemma distinct_new_Set: "distinct (new_Set xs)"
  by (simp add: new_Set_def distinct_new_Set_aux)

lemma names_of_snoc:
  "names_of (xs @ [x]) = names_of xs @ (case resolved_name x of None \<Rightarrow> [] | Some n \<Rightarrow> [n])"
  by (simp add: names_of_def List.map_filter_def split: option.splits)

lemma names_of_nonempty: "n \<in> set (names_of xs) \<Longrightarrow> n \<noteq> []"
  by (auto simp: names_of_def List.map_filter_def resolved_name_def truthy_def
           split: if_splits option.splits)

lemma names_of_iff:
  "n \<in> set (names_of xs) \<longleftrightarrow> n \<noteq> [] \<and> (\<exists>i \<in> set xs. has_name n i)"
  by (auto simp: names_of_def List.map_filter_def resolved_name_def truthy_def has_name_def
           image_iff split: if_splits option.splits)

lemma find_snoc:
  "List.find P (xs @ [x]) =
     (case List.find P xs of Some y \<Rightarrow> Some y | None \<Rightarrow> if P x then Some x else None)"
  by (induction xs) auto

lemma map_of_expected:
  "(map_of (expected_groups xs) n = None) = (n \<notin> set (names_of xs))"
  by (simp add: expected_groups_def map_of_eq_None_iff image_iff set_new_Set comp_def)


lemma group_of_snoc_other:
  "\<not> has_name n x \<Longrightarrow> group_of (xs @ [x]) n = group_of xs n"
  by (simp add: group_of_def find_snoc split: option.splits)

lemma group_of_snoc_same:
  assumes "has_name n x"
  shows "group_of (xs @ [x]) n =
           (if \<exists>i \<in> set xs. has_name n i
            then (group_of xs n)\<lparr>items := items (group_of xs n) @ [x],
                                 subtotal := js_add (subtotal (group_of xs n)) (double (item_total x))\<rparr>
            else \<lparr>restaurantName = n, restaurantId = restaurant_id_of x, items = [x],
                  subtotal = js_add 0 (double (item_total x))\<rparr>)"
proof (cases "\<exists>i \<in> set xs. has_name n i")
  case True
  then obtain y where "List.find (has_name n) xs = Some y"
    by (cases "List.find (has_name n) xs") (auto simp: find_None_iff)
  with True assms show ?thesis by (simp add: group_of_def find_snoc js_sum_def)
next
  case False
  then have "List.find (has_name n) xs = None" "filter (has_name n) xs = []"
    by (auto simp: find_None_iff filter_empty_conv)
  with False assms show ?thesis by (simp add: group_of_def find_snoc js_sum_def)
qed

lemma update_group_map:
  "update_group m f (map (\<lambda>n. (n, h n)) ks) = map (\<lambda>n. (n, if n = m then f (h n) else h n)) ks"
  by (simp add: update_group_def comp_def)

lemma group_step_expected:
  assumes safe: "\<forall>n. resolved_name x = Some n \<longrightarrow> n \<notin> set Object_prototype_keys"
  shows "group_step (expected_groups xs) x = Inr (expected_groups (xs @ [x]))"
proof (cases "resolved_name x")
  case None
  then have no: "\<And>n. n \<noteq> [] \<Longrightarrow> \<not> has_name n x"
    by (auto simp: resolved_name_def has_name_def truthy_def split: if_splits)
  have "expected_groups (xs @ [x]) = expected_groups xs"
    using None no
    by (auto simp: expected_groups_def names_of_snoc group_of_snoc_other names_of_nonempty set_new_Set)
  moreover have "group_step (expected_groups xs) x = Inr (expected_groups xs)"
    using None
    by (auto simp: group_step_def resolved_name_def truthy_def split: option.splits if_splits)
  ultimately show ?thesis by simp
next
  case (Some m)
  then have nm: "restaurant_name_of x = Some m" and ne: "m \<noteq> []"
    by (auto simp: resolved_name_def truthy_def split: if_splits option.splits)
  have hm: "has_name m x" by (simp add: has_name_def nm)
  have other: "\<And>n. n \<noteq> m \<Longrightarrow> \<not> has_name n x" by (simp add: has_name_def nm)
  have notproto: "m \<notin> set Object_prototype_keys" using safe Some by blast
  let ?f = "\<lambda>g. g\<lparr>items := items g @ [x],
                  subtotal := js_add (subtotal g) (js_mul (h_price x) (of_int (h_quantity x)))\<rparr>"
  show ?thesis
  proof (cases "m \<in> set (names_of xs)")
    case True
    then have ex: "\<exists>i \<in> set xs. has_name m i" by (simp add: names_of_iff)
    have step: "group_step (expected_groups xs) x = Inr (update_group m ?f (expected_groups xs))"
      using True nm ne by (simp add: group_step_def map_of_expected Let_def)
    have ks: "new_Set (names_of (xs @ [x])) = new_Set (names_of xs)"
      using True Some by (simp add: names_of_snoc new_Set_snoc set_new_Set)
    have "update_group m ?f (expected_groups xs) = expected_groups (xs @ [x])"
      unfolding expected_groups_def ks update_group_map
      using hm ex other
      by (auto simp: group_of_snoc_same group_of_snoc_other item_total_def js_mul_def)
    with step show ?thesis by simp
  next
    case False
    then have nex: "\<not> (\<exists>i \<in> set xs. has_name m i)" using ne by (simp add: names_of_iff)
    let ?new = "\<lparr>restaurantName = m, restaurantId = restaurant_id_of x, items = [], subtotal = 0\<rparr>"
    have step: "group_step (expected_groups xs) x =
                  Inr (update_group m ?f (expected_groups xs @ [(m, ?new)]))"
      using False nm ne notproto by (simp add: group_step_def map_of_expected Let_def)
    have ks: "new_Set (names_of (xs @ [x])) = new_Set (names_of xs) @ [m]"
      using False Some by (simp add: names_of_snoc new_Set_snoc set_new_Set)
    have u1: "update_group m ?f (expected_groups xs @ [(m, ?new)])
                = update_group m ?f (expected_groups xs) @ [(m, ?f ?new)]"
      by (simp add: update_group_def)
    have u2: "update_group m ?f (expected_groups xs)
                = map (\<lambda>n. (n, group_of (xs @ [x]) n)) (new_Set (names_of xs))"
      unfolding expected_groups_def update_group_map
      using False other by (auto simp: group_of_snoc_other set_new_Set)
    have u3: "?f ?new = group_of (xs @ [x]) m"
      using hm nex by (simp add: group_of_snoc_same item_total_def js_mul_def)
    show ?thesis unfolding step u1 u2 u3 by (simp add: expected_groups_def ks)
  qed
qed

lemma plain_names_snoc:
  "plain_names (xs @ [x]) \<Longrightarrow>
     plain_names xs \<and> (\<forall>n. resolved_name x = Some n \<longrightarrow> n \<notin> set Object_prototype_keys)"
  by (auto simp: plain_names_def names_of_snoc split: option.splits)

lemma group_items_expected:
  "plain_names xs \<Longrightarrow> group_items [] xs = Inr (expected_groups xs)"
proof (induction xs rule: rev_induct)
  case Nil
  then show ?case by (simp add: expected_groups_def names_of_def new_Set_def)
next
  case (snoc x xs)
  from plain_names_snoc[OF snoc.prems] snoc.IH
  have "group_items [] xs = Inr (expected_groups xs)"
    and "\<forall>n. resolved_name x = Some n \<longrightarrow> n \<notin> set Object_prototype_keys" by auto
  then show ?case by (simp add: group_items_append group_step_expected)
qed


lemma mset_Object_values: "mset (Object_values acc) = mset (map snd acc)"
proof -
  have "mset (filter (\<lambda>(k, g). is_array_index k) acc) + mset (filter (\<lambda>(k, g). \<not> is_array_index k) acc)
          = mset acc"
    by (induction acc) auto
  then have "mset (sort_key (\<lambda>(k, g). numeral_value k) (filter (\<lambda>(k, g). is_array_index k) acc)
                   @ filter (\<lambda>(k, g). \<not> is_array_index k) acc) = mset acc"
    by simp
  then have "image_mset snd (mset (sort_key (\<lambda>(k, g). numeral_value k) (filter (\<lambda>(k, g). is_array_index k) acc)
                   @ filter (\<lambda>(k, g). \<not> is_array_index k) acc)) = image_mset snd (mset acc)"
    by (rule arg_cong)
  then show ?thesis unfolding Object_values_def mset_map .
qed

lemma enrich_keeps:
  "restaurant_name_of (enrich g i) = restaurant_name_of i"
  "restaurant_id_of (enrich g i) = restaurant_id_of i"
  "item_total (enrich g i) = item_total i"
  "has_name n (enrich g i) = has_name n i"
  "resolved_name (enrich g i) = resolved_name i"
  "resolvable (enrich g i) = resolvable i"
  by (simp_all add: enrich_def restaurant_name_of_def restaurant_id_of_def item_total_def
        has_name_def resolved_name_def resolvable_def Let_def)

lemma names_of_enrich: "names_of (map (enrich g) xs) = names_of xs"
  by (simp add: names_of_def List.map_filter_def comp_def enrich_keeps filter_map)

lemma filter_enrich:
  "filter (has_name n) (map (enrich g) xs) = map (enrich g) (filter (has_name n) xs)"
  "filter resolvable (map (enrich g) xs) = map (enrich g) (filter resolvable xs)"
  by (simp_all add: filter_map comp_def enrich_keeps)

lemma plain_names_enrich: "plain_names (map (enrich g) xs) = plain_names xs"
  by (simp add: plain_names_def names_of_enrich)

lemma sum_list_mset_cong:
  fixes f :: "'a \<Rightarrow> 'b::comm_monoid_add"
  shows "mset xs = mset ys \<Longrightarrow> sum_list (map f xs) = sum_list (map f ys)"
  by (metis mset_map sum_mset_sum_list)

lemma partition_by_name:
  "distinct ks \<Longrightarrow>
     (\<Sum>n\<leftarrow>ks. mset (filter (has_name n) ys)) = mset (filter (\<lambda>i. \<exists>n \<in> set ks. has_name n i) ys)"
proof (induction ks)
  case Nil
  then show ?case by simp
next
  case (Cons k ks)
  have "mset (filter (has_name k) ys) + mset (filter (\<lambda>i. \<exists>n \<in> set ks. has_name n i) ys)
          = mset (filter (\<lambda>i. \<exists>n \<in> set (k # ks). has_name n i) ys)"
    using Cons.prems by (induction ys) (auto simp: has_name_def)
  with Cons show ?case by simp
qed

lemma resolvable_iff: "resolvable i \<longleftrightarrow> (\<exists>n. n \<noteq> [] \<and> has_name n i)"
  by (auto simp: resolvable_def has_name_def truthy_def split: option.splits)

lemma filter_resolvable:
  "filter (\<lambda>i. \<exists>n \<in> set (names_of ys). has_name n i) ys = filter resolvable ys"
proof -
  have "(\<exists>n \<in> set (names_of ys). has_name n i) = resolvable i" if i: "i \<in> set ys" for i
  proof
    assume "\<exists>n \<in> set (names_of ys). has_name n i"
    then obtain n where "n \<in> set (names_of ys)" "has_name n i" by blast
    then have "n \<noteq> [] \<and> has_name n i" by (simp add: names_of_iff)
    then show "resolvable i" by (auto simp: resolvable_iff)
  next
    assume "resolvable i"
    then obtain n where n: "n \<noteq> []" "has_name n i" by (auto simp: resolvable_iff)
    with i have "n \<in> set (names_of ys)" by (auto simp: names_of_iff)
    with n show "\<exists>n \<in> set (names_of ys). has_name n i" by blast
  qed
  then show ?thesis by (intro filter_cong) auto
qed


lemma segments_of_expected:
  assumes "plain_names (order_items_of ord)"
  shows "segments_of fmt g ord =
           Inr (map (\<lambda>gr. \<lparr>seg_order = ord,
                             displayId = display_id (h_id ord) (restaurantId gr),
                             seg_restaurantName = restaurantName gr,
                             seg_order_items = items gr,
                             total = subtotal gr,
                             createdAt = fmt (h_created_at ord),
                             isSegment = True\<rparr>)
                    (Object_values (expected_groups (map (enrich g) (order_items_of ord)))))"
  using assms
  by (simp add: segments_of_def Let_def group_items_expected plain_names_enrich)

text \<open>The groups of an order, in the order of \<open>Object.values\<close>.\<close>

lemma groups_mset:
  "mset (Object_values (expected_groups ys)) = mset (map (group_of ys) (new_Set (names_of ys)))"
  by (simp add: mset_Object_values expected_groups_def comp_def)

lemma groups_set:
  "gr \<in> set (Object_values (expected_groups ys)) \<longleftrightarrow>
     (\<exists>n \<in> set (names_of ys). gr = group_of ys n)"
proof -
  have "set (Object_values (expected_groups ys)) = set (map (group_of ys) (new_Set (names_of ys)))"
    using groups_mset[of ys] by (rule mset_eq_setD)
  then show ?thesis by (auto simp: set_new_Set)
qed

lemma groups_names:
  "mset (map restaurantName (Object_values (expected_groups ys))) = mset (new_Set (names_of ys))"
proof -
  have "mset (map restaurantName (Object_values (expected_groups ys)))
          = image_mset restaurantName (mset (map (group_of ys) (new_Set (names_of ys))))"
    by (simp add: groups_mset)
  also have "\<dots> = mset (map (\<lambda>n. restaurantName (group_of ys n)) (new_Set (names_of ys)))"
    by (simp add: multiset.map_comp comp_def)
  also have "\<dots> = mset (new_Set (names_of ys))" by (simp add: group_of_def)
  finally show ?thesis .
qed

lemma groups_items:
  "mset (concat (map items (Object_values (expected_groups ys)))) = mset (filter resolvable ys)"
proof -
  have "mset (concat (map items (Object_values (expected_groups ys))))
          = (\<Sum>gr\<leftarrow>Object_values (expected_groups ys). mset (items gr))"
    by (simp add: mset_concat comp_def)
  also have "\<dots> = (\<Sum>gr\<leftarrow>map (group_of ys) (new_Set (names_of ys)). mset (items gr))"
    by (rule sum_list_mset_cong) (rule groups_mset)
  also have "\<dots> = (\<Sum>n\<leftarrow>new_Set (names_of ys). mset (filter (has_name n) ys))"
    by (simp add: comp_def group_of_def)
  also have "\<dots> = mset (filter (\<lambda>i. \<exists>n \<in> set (new_Set (names_of ys)). has_name n i) ys)"
    by (rule partition_by_name) (rule distinct_new_Set)
  also have "\<dots> = mset (filter resolvable ys)"
    by (simp only: set_new_Set filter_resolvable)
  finally show ?thesis .
qed

lemma sum_list_map_concat:
  fixes f :: "'a \<Rightarrow> 'b::monoid_add"
  shows "sum_list (map f (concat xss)) = (\<Sum>xs\<leftarrow>xss. sum_list (map f xs))"
  by (induction xss) auto

lemma groups_subtotal_each:
  "gr \<in> set (Object_values (expected_groups ys)) \<Longrightarrow>
     subtotal gr = js_sum (map item_total (items gr))"
  by (auto simp: groups_set group_of_def)

lemma exact_order_group:
  assumes "exact_order ys" "gr \<in> set (Object_values (expected_groups ys))"
  shows "exact_run 0 (map item_total (items gr))"
proof -
  from assms(2) obtain n where "n \<in> set (names_of ys)" "gr = group_of ys n"
    unfolding groups_set by blast
  with assms(1) show ?thesis by (simp add: exact_order_def list_all_iff group_of_def)
qed

lemma groups_subtotals:
  assumes "exact_order ys"
  shows "(\<Sum>gr\<leftarrow>Object_values (expected_groups ys). subtotal gr)
           = sum_list (map item_total (filter resolvable ys))"
proof -
  have each: "subtotal gr = sum_list (map item_total (items gr))"
    if "gr \<in> set (Object_values (expected_groups ys))" for gr
    using groups_subtotal_each[OF that] js_sum_exact[OF exact_order_group[OF assms that]] by simp
  have "(\<Sum>gr\<leftarrow>Object_values (expected_groups ys). subtotal gr)
          = (\<Sum>gr\<leftarrow>Object_values (expected_groups ys). sum_list (map item_total (items gr)))"
    using each by (intro arg_cong[of _ _ sum_list] map_cong) auto
  also have "\<dots> = sum_list (map item_total (concat (map items (Object_values (expected_groups ys)))))"
    by (simp add: sum_list_map_concat comp_def)
  also have "\<dots> = sum_list (map item_total (filter resolvable ys))"
    by (rule sum_list_mset_cong) (rule groups_items)
  finally show ?thesis .
qed

lemma exact_order_enrich: "exact_order (map (enrich g) xs) = exact_order xs"
  by (simp add: exact_order_def names_of_enrich filter_enrich comp_def enrich_keeps)

text \<open>
  C1 (as amended). For every order none of whose resolved restaurant names is a property
  that a plain object inherits, the segmentation returns without error one segment per
  distinct resolved restaurant name: the segments' names are distinct and are exactly the
  resolved names; each segment holds exactly the (image-enriched) items whose restaurant
  has the segment's name, in the order's order, and its total is the running
  double-precision total of price times quantity over them; taken together the segments'
  items are the resolvable items, each once; when no product and no addition of any
  group is rounded, each total is the sum of price times quantity over the segment's
  items and the totals add up to that sum over the resolvable items; and an item without
  a resolvable restaurant is in no segment.
\<close>

theorem segmentation_by_name:
  assumes "plain_names (order_items_of ord)"
  shows "\<exists>segs. segments_of fmt g ord = Inr segs
      \<and> length segs = card (set (names_of (order_items_of ord)))
      \<and> distinct (map seg_restaurantName segs)
      \<and> set (map seg_restaurantName segs) = set (names_of (order_items_of ord))
      \<and> (\<forall>seg \<in> set segs.
            seg_order_items seg
              = map (enrich g) (filter (has_name (seg_restaurantName seg)) (order_items_of ord))
          \<and> total seg = js_sum (map item_total (seg_order_items seg)))
      \<and> mset (concat (map seg_order_items segs))
          = mset (map (enrich g) (filter resolvable (order_items_of ord)))
      \<and> (exact_order (order_items_of ord) \<longrightarrow>
            (\<forall>seg \<in> set segs. total seg = sum_list (map item_total (seg_order_items seg)))
          \<and> sum_list (map total segs)
              = sum_list (map item_total (filter resolvable (order_items_of ord))))
      \<and> (\<forall>i \<in> set (order_items_of ord). \<not> resolvable i \<longrightarrow>
            (\<forall>seg \<in> set segs. enrich g i \<notin> set (seg_order_items seg)))"
proof -
  let ?xs = "order_items_of ord"
  let ?ys = "map (enrich g) ?xs"
  let ?gs = "Object_values (expected_groups ?ys)"
  let ?mk = "\<lambda>gr. \<lparr>seg_order = ord,
                             displayId = display_id (h_id ord) (restaurantId gr),
                             seg_restaurantName = restaurantName gr,
                             seg_order_items = items gr,
                             total = subtotal gr,
                             createdAt = fmt (h_created_at ord),
                             isSegment = True\<rparr>"
  let ?segs = "map ?mk ?gs"
  have eq: "segments_of fmt g ord = Inr ?segs" by (rule segments_of_expected[OF assms])
  have nm: "map seg_restaurantName ?segs = map restaurantName ?gs" by (simp add: comp_def)
  have it: "map seg_order_items ?segs = map items ?gs" by (simp add: comp_def)
  have tt: "map total ?segs = map subtotal ?gs" by (simp add: comp_def)
  have ms: "mset (map restaurantName ?gs) = mset (new_Set (names_of ?xs))"
    using groups_names[of ?ys] by (simp only: names_of_enrich)
  have 1: "length ?segs = card (set (names_of ?xs))"
  proof -
    have "length (map restaurantName ?gs) = length (new_Set (names_of ?xs))"
      using ms by (rule mset_eq_length)
    then show ?thesis
      using distinct_card[OF distinct_new_Set, of "names_of ?xs"] by (simp add: set_new_Set)
  qed
  have 2: "distinct (map seg_restaurantName ?segs)"
    unfolding nm using mset_eq_imp_distinct_iff[OF ms] distinct_new_Set by blast
  have 3: "set (map seg_restaurantName ?segs) = set (names_of ?xs)"
    unfolding nm using mset_eq_setD[OF ms] by (simp only: set_new_Set)
  have 4: "\<forall>seg \<in> set ?segs.
            seg_order_items seg = map (enrich g) (filter (has_name (seg_restaurantName seg)) ?xs)
          \<and> total seg = js_sum (map item_total (seg_order_items seg))"
  proof
    fix seg assume "seg \<in> set ?segs"
    then obtain gr where gr: "gr \<in> set ?gs" "seg = ?mk gr" by auto
    then obtain n where "gr = group_of ?ys n" unfolding groups_set by blast
    with gr show "seg_order_items seg = map (enrich g) (filter (has_name (seg_restaurantName seg)) ?xs)
          \<and> total seg = js_sum (map item_total (seg_order_items seg))"
      by (simp add: group_of_def filter_enrich)
  qed
  have 5: "mset (concat (map seg_order_items ?segs)) = mset (map (enrich g) (filter resolvable ?xs))"
    unfolding it using groups_items[of ?ys] by (simp only: filter_enrich)
  have 6: "exact_order ?xs \<longrightarrow>
            (\<forall>seg \<in> set ?segs. total seg = sum_list (map item_total (seg_order_items seg)))
          \<and> sum_list (map total ?segs) = sum_list (map item_total (filter resolvable ?xs))"
  proof
    assume "exact_order ?xs"
    then have ex: "exact_order ?ys" by (simp add: exact_order_enrich)
    have a: "\<forall>seg \<in> set ?segs. total seg = sum_list (map item_total (seg_order_items seg))"
    proof
      fix seg assume "seg \<in> set ?segs"
      then obtain gr where gr: "gr \<in> set ?gs" "seg = ?mk gr" by auto
      from groups_subtotal_each[OF gr(1)] js_sum_exact[OF exact_order_group[OF ex gr(1)]] gr(2)
      show "total seg = sum_list (map item_total (seg_order_items seg))" by simp
    qed
    have "sum_list (map total ?segs) = sum_list (map item_total (filter resolvable ?ys))"
      unfolding tt by (rule groups_subtotals[OF ex])
    also have "\<dots> = sum_list (map item_total (filter resolvable ?xs))"
      by (simp add: filter_enrich comp_def enrich_keeps)
    finally have b: "sum_list (map total ?segs) = sum_list (map item_total (filter resolvable ?xs))" .
    from a b show "(\<forall>seg \<in> set ?segs. total seg = sum_list (map item_total (seg_order_items seg)))
          \<and> sum_list (map total ?segs) = sum_list (map item_total (filter resolvable ?xs))" by blast
  qed
  have 7: "\<forall>i \<in> set ?xs. \<not> resolvable i \<longrightarrow>
            (\<forall>seg \<in> set ?segs. enrich g i \<notin> set (seg_order_items seg))"
  proof (intro ballI impI)
    fix i seg assume i: "\<not> resolvable i" and seg: "seg \<in> set ?segs"
    show "enrich g i \<notin> set (seg_order_items seg)"
    proof
      assume "enrich g i \<in> set (seg_order_items seg)"
      with seg have "enrich g i \<in> set (concat (map seg_order_items ?segs))" by auto
      then have "enrich g i \<in># mset (concat (map seg_order_items ?segs))" by simp
      then have "enrich g i \<in> set (map (enrich g) (filter resolvable ?xs))"
        unfolding 5 by simp
      then obtain j where "resolvable j" "enrich g j = enrich g i" by auto
      then have "resolvable i" by (metis enrich_keeps(6))
      with i show False by simp
    qed
  qed
  show ?thesis by (rule exI[of _ ?segs]) (intro conjI; fact)
qed

lemmas history_eval =
  segments_of_def segment_summaries_def order_items_of_def enrich_def resolveImage_def
  truthy_image_def image_of_def group_step_def restaurant_name_of_def restaurant_id_of_def
  update_group_def Object_values_def is_array_index_def is_digit_def display_id_def
  Object_prototype_keys_def ex_item_def ex_orphan_def ex_date_def js_add_def js_mul_def
  double_examples Let_def

lemma ex_history_segments:
  "segment_summaries (segments_of ex_date ex_no_storage ex_history_order) =
     Some [(''o1-ra'', ''A'', [''Burger'', ''Fries''], 200), (''o1-rb'', ''B'', [''Cola''], 75)]"
  by (simp add: history_eval ex_history_order_def)

lemma ex_same_name_segments:
  "segment_summaries (segments_of ex_date ex_no_storage ex_same_name_order) =
     Some [(''o2-r1'', ''Jollibee'', [''Chicken'', ''Spaghetti''], 175)]"
  by (simp add: history_eval ex_same_name_order_def)

lemma ex_plain:
  "plain_names (order_items_of ex_history_order)"
  "plain_names (order_items_of ex_same_name_order)"
  by (simp_all add: plain_names_def names_of_def resolved_name_def truthy_def
        order_items_of_def ex_history_order_def ex_same_name_order_def ex_item_def ex_orphan_def
        restaurant_name_of_def Object_prototype_keys_def)


lemma ex_exact: "exact_order (order_items_of ex_history_order)"
  by (simp add: exact_order_def names_of_def resolved_name_def truthy_def has_name_def
        order_items_of_def ex_history_order_def ex_item_def ex_orphan_def
        restaurant_name_of_def item_total_def double_examples)

theorem segmentation_by_name_witness:
  "plain_names (order_items_of ex_history_order)
   \<and> exact_order (order_items_of ex_history_order)
   \<and> segment_summaries (segments_of ex_date ex_no_storage ex_history_order) =
       Some [(''o1-ra'', ''A'', [''Burger'', ''Fries''], 200), (''o1-rb'', ''B'', [''Cola''], 75)]
   \<and> card (set (names_of (order_items_of ex_history_order))) = 2
   \<and> sum_list (map item_total (filter resolvable (order_items_of ex_history_order))) = 275"
proof -
  from segmentation_by_name[OF ex_plain(1), of ex_date ex_no_storage] ex_exact
  obtain segs where s: "segments_of ex_date ex_no_storage ex_history_order = Inr segs"
    and l: "length segs = card (set (names_of (order_items_of ex_history_order)))"
    and t: "sum_list (map total segs)
              = sum_list (map item_total (filter resolvable (order_items_of ex_history_order)))"
    by blast
  from s ex_history_segments
  have m: "map (\<lambda>s. (displayId s, seg_restaurantName s, map h_name (seg_order_items s), total s)) segs
        = [(''o1-ra'', ''A'', [''Burger'', ''Fries''], 200), (''o1-rb'', ''B'', [''Cola''], 75)]"
    by (simp add: segment_summaries_def)
  have "length segs = length (map (\<lambda>s. (displayId s, seg_restaurantName s,
                      map h_name (seg_order_items s), total s)) segs)" by simp
  also have "\<dots> = 2" unfolding m by simp
  finally have n2: "length segs = 2" .
  have "map total segs = map (\<lambda>q. snd (snd (snd q))) (map (\<lambda>s. (displayId s, seg_restaurantName s,
                      map h_name (seg_order_items s), total s)) segs)" by (simp add: comp_def)
  also have "\<dots> = [200, 75]" unfolding m by simp
  finally have tot: "map total segs = [200, 75]" .
  have c: "card (set (names_of (order_items_of ex_history_order))) = 2" using l n2 by simp
  have u: "sum_list (map item_total (filter resolvable (order_items_of ex_history_order))) = 275"
    using t unfolding tot by simp
  from ex_plain(1) ex_exact ex_history_segments c u show ?thesis by blast
qed

text \<open>
  An order with items of three restaurants, two of which share the name Jollibee, gives
  two segments, not three, and the Jollibee segment holds the items of both; and with
  the prices 0.1, 0.1 and 1.1 the segments' totals do not add up to the sum of price
  times quantity, neither exactly nor when both sums are taken in double precision.
\<close>

lemma ex_float_segments:
  "segment_summaries (segments_of ex_date ex_no_storage ex_float_order) =
     Some [(''o4-r1'', ''Jollibee'', [''Sundae'', ''Fries''], 1351079888211149 / 1125899906842624),
           (''o4-rb'', ''B'', [''Cola''], 3602879701896397 / 36028797018963968)]"
  by code_simp

lemma ex_float_sums:
  "segment_totals (segments_of ex_date ex_no_storage ex_float_order)
     = [1351079888211149 / 1125899906842624, 3602879701896397 / 36028797018963968]"
  "sum_list [1351079888211149 / 1125899906842624, 3602879701896397 / 36028797018963968 :: rat]
     \<noteq> sum_list (map item_total (order_items_of ex_float_order))"
  "js_sum [1351079888211149 / 1125899906842624, 3602879701896397 / 36028797018963968]
     \<noteq> js_sum (map item_total (order_items_of ex_float_order))"
  by code_simp+

theorem shared_name_counterexample:
  "map restaurant_of (order_items_of ex_float_order)
     = [(Some ''r1'', Some ''Jollibee''), (Some ''rb'', Some ''B''), (Some ''r2'', Some ''Jollibee'')]
   \<and> segment_summaries (segments_of ex_date ex_no_storage ex_float_order) =
       Some [(''o4-r1'', ''Jollibee'', [''Sundae'', ''Fries''], 1351079888211149 / 1125899906842624),
             (''o4-rb'', ''B'', [''Cola''], 3602879701896397 / 36028797018963968)]
   \<and> sum_list (segment_totals (segments_of ex_date ex_no_storage ex_float_order))
       \<noteq> sum_list (map item_total (order_items_of ex_float_order))
   \<and> js_sum (segment_totals (segments_of ex_date ex_no_storage ex_float_order))
       \<noteq> js_sum (map item_total (order_items_of ex_float_order))"
proof -
  have "map restaurant_of (order_items_of ex_float_order)
     = [(Some ''r1'', Some ''Jollibee''), (Some ''rb'', Some ''B''), (Some ''r2'', Some ''Jollibee'')]"
    by (simp add: order_items_of_def ex_float_order_def ex_item_def restaurant_of_def
          restaurant_name_of_def restaurant_id_of_def)
  with ex_float_segments ex_float_sums show ?thesis by (simp only:) simp
qed

lemma names_image:
  "set (names_of xs) = (\<lambda>r. the (snd r)) ` restaurant_of ` set (filter resolvable xs)"
proof (intro set_eqI iffI)
  fix n assume "n \<in> set (names_of xs)"
  then obtain i where i: "n \<noteq> []" "i \<in> set xs" "has_name n i" by (auto simp: names_of_iff)
  then have "resolvable i" by (auto simp: resolvable_iff)
  moreover have "the (snd (restaurant_of i)) = n"
    using i by (simp add: restaurant_of_def has_name_def)
  ultimately show "n \<in> (\<lambda>r. the (snd r)) ` restaurant_of ` set (filter resolvable xs)"
    using i by force
next
  fix n assume "n \<in> (\<lambda>r. the (snd r)) ` restaurant_of ` set (filter resolvable xs)"
  then obtain i where i: "i \<in> set xs" "resolvable i" "n = the (snd (restaurant_of i))" by auto
  then obtain m where "m \<noteq> []" "has_name m i" by (auto simp: resolvable_iff)
  with i show "n \<in> set (names_of xs)"
    by (auto simp: names_of_iff restaurant_of_def has_name_def)
qed

lemma find_enrich:
  "List.find (has_name n) (map (enrich g) xs) = map_option (enrich g) (List.find (has_name n) xs)"
  by (induction xs) (auto simp: enrich_keeps)

text \<open>
  Segments are keyed by the restaurant's name. In an order none of whose resolved
  restaurant names is a property that a plain object inherits, when two items have the
  same resolved name but different restaurant identifiers, exactly one segment carries
  that name; it holds both items; its total is the running double-precision total over
  all items of that name; its display id is built from the restaurant identifier of the
  first item of that name in the order; and there are strictly fewer segments than
  distinct restaurants (identifier with name) among the resolvable items.
\<close>

theorem grouping_is_by_name:
  assumes plain: "plain_names (order_items_of ord)"
      and ij: "i \<in> set (order_items_of ord)" "j \<in> set (order_items_of ord)"
      and nm: "n \<noteq> []" "has_name n i" "has_name n j"
      and ids: "restaurant_id_of i \<noteq> restaurant_id_of j"
  shows "\<exists>segs seg k.
           segments_of fmt g ord = Inr segs \<and> seg \<in> set segs \<and> seg_restaurantName seg = n
         \<and> (\<forall>s \<in> set segs. seg_restaurantName s = n \<longrightarrow> s = seg)
         \<and> enrich g i \<in> set (seg_order_items seg) \<and> enrich g j \<in> set (seg_order_items seg)
         \<and> total seg = js_sum (map item_total (filter (has_name n) (order_items_of ord)))
         \<and> k < length (order_items_of ord) \<and> has_name n (order_items_of ord ! k)
         \<and> (\<forall>l < k. \<not> has_name n (order_items_of ord ! l))
         \<and> displayId seg = display_id (h_id ord) (restaurant_id_of (order_items_of ord ! k))
         \<and> length segs < card (restaurant_of ` set (filter resolvable (order_items_of ord)))"
proof -
  let ?xs = "order_items_of ord"
  let ?ys = "map (enrich g) ?xs"
  let ?gs = "Object_values (expected_groups ?ys)"
  let ?mk = "\<lambda>gr. \<lparr>seg_order = ord,
                             displayId = display_id (h_id ord) (restaurantId gr),
                             seg_restaurantName = restaurantName gr,
                             seg_order_items = items gr,
                             total = subtotal gr,
                             createdAt = fmt (h_created_at ord),
                             isSegment = True\<rparr>"
  let ?segs = "map ?mk ?gs"
  let ?seg = "?mk (group_of ?ys n)"
  have eq: "segments_of fmt g ord = Inr ?segs" by (rule segments_of_expected[OF plain])
  have n_in: "n \<in> set (names_of ?ys)"
    using ij nm by (auto simp: names_of_enrich names_of_iff)
  then have 1: "?seg \<in> set ?segs" using groups_set[of "group_of ?ys n" ?ys] by auto
  have 2: "seg_restaurantName ?seg = n" by (simp add: group_of_def)
  have 3: "\<forall>s \<in> set ?segs. seg_restaurantName s = n \<longrightarrow> s = ?seg"
  proof (intro ballI impI)
    fix s assume s: "s \<in> set ?segs" "seg_restaurantName s = n"
    then obtain gr where gr: "gr \<in> set ?gs" "s = ?mk gr" by auto
    then obtain m where m: "gr = group_of ?ys m" unfolding groups_set by blast
    with gr s have "m = n" by (simp add: group_of_def)
    with m gr show "s = ?seg" by simp
  qed
  have 4: "enrich g i \<in> set (seg_order_items ?seg)" "enrich g j \<in> set (seg_order_items ?seg)"
    using ij nm by (auto simp: group_of_def enrich_keeps)
  have 5: "total ?seg = js_sum (map item_total (filter (has_name n) ?xs))"
    by (simp add: group_of_def filter_enrich comp_def enrich_keeps)
  obtain y where y: "List.find (has_name n) ?xs = Some y"
    using ij nm by (cases "List.find (has_name n) ?xs") (auto simp: find_None_iff)
  then obtain k where k: "k < length ?xs" "has_name n (?xs ! k)" "y = ?xs ! k"
    "\<forall>l < k. \<not> has_name n (?xs ! l)"
    unfolding find_Some_iff by blast
  have "List.find (has_name n) ?ys = Some (enrich g y)"
    using y by (simp add: find_enrich)
  then have 6: "displayId ?seg = display_id (h_id ord) (restaurant_id_of (?xs ! k))"
    using k by (simp add: group_of_def enrich_keeps)
  have 7: "length ?segs < card (restaurant_of ` set (filter resolvable ?xs))"
  proof -
    let ?S = "restaurant_of ` set (filter resolvable ?xs)"
    have len: "length ?segs = card (set (names_of ?xs))"
    proof -
      have "mset (map restaurantName ?gs) = mset (new_Set (names_of ?xs))"
        using groups_names[of ?ys] by (simp only: names_of_enrich)
      then have "length (map restaurantName ?gs) = length (new_Set (names_of ?xs))"
        by (rule mset_eq_length)
      then show ?thesis
        using distinct_card[OF distinct_new_Set, of "names_of ?xs"] by (simp add: set_new_Set)
    qed
    have fin: "finite ?S" by simp
    have ri: "resolvable i" "resolvable j" using nm by (auto simp: resolvable_iff)
    have mem: "restaurant_of i \<in> ?S" "restaurant_of j \<in> ?S" using ij ri by auto
    have ne: "restaurant_of i \<noteq> restaurant_of j" using ids by (simp add: restaurant_of_def)
    have same: "the (snd (restaurant_of i)) = the (snd (restaurant_of j))"
      using nm by (simp add: restaurant_of_def has_name_def)
    have "\<not> inj_on (\<lambda>r. the (snd r)) ?S"
    proof
      assume "inj_on (\<lambda>r. the (snd r)) ?S"
      from inj_onD[OF this same mem] ne show False by simp
    qed
    then have "card ((\<lambda>r. the (snd r)) ` ?S) \<noteq> card ?S"
      using inj_on_iff_eq_card[OF fin] by blast
    moreover have "card ((\<lambda>r. the (snd r)) ` ?S) \<le> card ?S" by (rule card_image_le[OF fin])
    ultimately have "card ((\<lambda>r. the (snd r)) ` ?S) < card ?S" by simp
    then show ?thesis unfolding len names_image .
  qed
  show ?thesis
    by (rule exI[of _ ?segs], rule exI[of _ ?seg], rule exI[of _ k]) (intro conjI; fact)
qed


theorem grouping_is_by_name_witness:
  "plain_names (order_items_of ex_same_name_order)
   \<and> ex_item ''Chicken'' 100 1 ''r1'' ''Jollibee'' \<in> set (order_items_of ex_same_name_order)
   \<and> ex_item ''Spaghetti'' 75 1 ''r2'' ''Jollibee'' \<in> set (order_items_of ex_same_name_order)
   \<and> has_name ''Jollibee'' (ex_item ''Chicken'' 100 1 ''r1'' ''Jollibee'')
   \<and> has_name ''Jollibee'' (ex_item ''Spaghetti'' 75 1 ''r2'' ''Jollibee'')
   \<and> restaurant_id_of (ex_item ''Chicken'' 100 1 ''r1'' ''Jollibee'')
       \<noteq> restaurant_id_of (ex_item ''Spaghetti'' 75 1 ''r2'' ''Jollibee'')
   \<and> segment_summaries (segments_of ex_date ex_no_storage ex_same_name_order) =
       Some [(''o2-r1'', ''Jollibee'', [''Chicken'', ''Spaghetti''], 175)]
   \<and> 1 < card (restaurant_of ` set (filter resolvable (order_items_of ex_same_name_order)))"
proof -
  let ?i = "ex_item ''Chicken'' 100 1 ''r1'' ''Jollibee''"
  let ?j = "ex_item ''Spaghetti'' 75 1 ''r2'' ''Jollibee''"
  have m: "?i \<in> set (order_items_of ex_same_name_order)" "?j \<in> set (order_items_of ex_same_name_order)"
    by (simp_all add: order_items_of_def ex_same_name_order_def)
  have h: "''Jollibee'' \<noteq> []" "has_name ''Jollibee'' ?i" "has_name ''Jollibee'' ?j"
    by (simp_all add: has_name_def restaurant_name_of_def ex_item_def)
  have d: "restaurant_id_of ?i \<noteq> restaurant_id_of ?j"
    by (simp add: restaurant_id_of_def ex_item_def)
  from grouping_is_by_name[OF ex_plain(2) m h d, of ex_date ex_no_storage]
  obtain segs where s: "segments_of ex_date ex_no_storage ex_same_name_order = Inr segs"
    and c: "length segs < card (restaurant_of ` set (filter resolvable (order_items_of ex_same_name_order)))"
    by blast
  from s ex_same_name_segments
  have e: "map (\<lambda>s. (displayId s, seg_restaurantName s, map h_name (seg_order_items s), total s)) segs
        = [(''o2-r1'', ''Jollibee'', [''Chicken'', ''Spaghetti''], 175)]"
    by (simp add: segment_summaries_def)
  have "length segs = length (map (\<lambda>s. (displayId s, seg_restaurantName s,
                      map h_name (seg_order_items s), total s)) segs)" by simp
  also have "\<dots> = 1" unfolding e by simp
  finally have "length segs = 1" .
  with c have "1 < card (restaurant_of ` set (filter resolvable (order_items_of ex_same_name_order)))"
    by simp
  with ex_plain(2) m h d ex_same_name_segments show ?thesis by blast
qed

text \<open>
  C3. Two restaurants that share a name are not always merged. For an order with one item
  of restaurant \<open>r7\<close> and one of restaurant \<open>r8\<close>, both restaurants named
  \<open>toString\<close>, the accumulator object already answers to that name with the function
  it inherits, so no group is created, the push onto its \<open>items\<close> throws a
  \<open>TypeError\<close> and the segmentation yields no segment at all.
\<close>

theorem inherited_name_throws:
  "map restaurant_of (order_items_of ex_inherited_order)
     = [(Some ''r7'', Some ''toString''), (Some ''r8'', Some ''toString'')]
   \<and> segments_of ex_date ex_no_storage ex_inherited_order = Inl TypeError"
  by (simp add: segments_of_def order_items_of_def ex_inherited_order_def enrich_def group_step_def
        restaurant_of_def restaurant_id_of_def restaurant_name_of_def Object_prototype_keys_def
        ex_item_def Let_def)

end
